theory Spec2Isabelle
  imports Main "HOL-Library.Sublist" "HOL-Library.Word"
begin

section \<open>Python values, exceptions and containers\<close>

text \<open>
  The replay buffers of \<^verbatim>\<open>safebench/gym_carla/replay_buffer.py\<close> raise no exception
  of their own: every failure is an exception of Python, numpy or torch. Each one is a
  constructor of \<open>error\<close>. An operation that mutates the buffer returns the exception
  (if any) together with the state it leaves behind, since Python does not undo the
  assignments made before a \<^verbatim>\<open>raise\<close>.
\<close>

datatype error =
  IndexError | KeyError | ValueError | AssertionError | ZeroDivisionError | TypeError | RuntimeError

text \<open>
  The values of a tag dictionary: the scenario id is an integer, every other value
  (cost, label, image, ...) is a payload.
\<close>

datatype 'a pyval = PyInt int | PyObj 'a

text \<open>A dictionary in insertion order. Python's dictionaries have distinct keys.\<close>

type_synonym ('k, 'v) pydict = "('k \<times> 'v) list"

definition dict_keys :: "('k, 'v) pydict \<Rightarrow> 'k list" where
  "dict_keys d = map fst d"

definition dict_get :: "('k, 'v) pydict \<Rightarrow> 'k \<Rightarrow> error + 'v" where
  "dict_get d k = (case map_of d k of None \<Rightarrow> Inl KeyError | Some v \<Rightarrow> Inr v)"

fun dict_set :: "('k, 'v) pydict \<Rightarrow> 'k \<Rightarrow> 'v \<Rightarrow> ('k, 'v) pydict" where
  "dict_set [] k v = [(k, v)]"
| "dict_set ((k', v') # d) k v =
     (if k' = k then (k, v) # d else (k', v') # dict_set d k v)"

text \<open>
  \<^verbatim>\<open>if key not in d.keys(): d[key] = []\<close> followed by \<^verbatim>\<open>d[key].append(v)\<close>: a key
  seen for the first time gets a new column, which then receives the value.
\<close>

definition dict_append :: "('k, 'v list) pydict \<Rightarrow> 'k \<Rightarrow> 'v \<Rightarrow> ('k, 'v list) pydict" where
  "dict_append d k v =
     dict_set d k ((case map_of d k of None \<Rightarrow> [] | Some col \<Rightarrow> col) @ [v])"

text \<open>
  The position that a Python integer \<open>i\<close> names in a list of \<open>len\<close> elements:
  \<open>i\<close> itself from \<open>0\<close> to \<open>len - 1\<close>, \<open>len + i\<close> from \<open>- len\<close> to \<open>- 1\<close>, and
  IndexError outside. \<^verbatim>\<open>xs[i]\<close> reads that position.
\<close>

definition list_index :: "nat \<Rightarrow> int \<Rightarrow> error + nat" where
  "list_index len i =
     (if 0 \<le> i \<and> i < int len then Inr (nat i)
      else if i < 0 \<and> - int len \<le> i then Inr (nat (int len + i))
      else Inl IndexError)"

definition getitem :: "'v list \<Rightarrow> int \<Rightarrow> error + 'v" where
  "getitem xs i = (case list_index (length xs) i of Inl e \<Rightarrow> Inl e | Inr j \<Rightarrow> Inr (xs ! j))"

text \<open>\<^verbatim>\<open>xs[a:b]\<close>: bounds are clamped, negative bounds count from the end.\<close>

definition slice_bound :: "nat \<Rightarrow> int \<Rightarrow> nat" where
  "slice_bound n i = (if i < 0 then nat (max 0 (int n + i)) else min (nat i) n)"

definition slice :: "'v list \<Rightarrow> int \<Rightarrow> int \<Rightarrow> 'v list" where
  "slice xs a b = drop (slice_bound (length xs) a) (take (slice_bound (length xs) b) xs)"

text \<open>\<^verbatim>\<open>xs[a:]\<close>\<close>

definition slice_from :: "'v list \<Rightarrow> int \<Rightarrow> 'v list" where
  "slice_from xs a = drop (slice_bound (length xs) a) xs"

text \<open>\<^verbatim>\<open>range(n)\<close> for a Python integer: empty when \<open>n \<le> 0\<close>.\<close>

definition py_range :: "int \<Rightarrow> nat list" where
  "py_range n = [0..<nat n]"

text \<open>
  An argument that the code treats as a sequence (it takes \<^verbatim>\<open>len\<close> of it or reads
  \<^verbatim>\<open>x[i]\<close>) is either a sequence of values or some other object, which has neither a
  length nor items: \<^verbatim>\<open>len(x)\<close> and \<^verbatim>\<open>x[i]\<close> raise TypeError on it.
\<close>

datatype 'v field = Seq "'v list" | Obj 'v

definition field_len :: "'v field \<Rightarrow> error + nat" where
  "field_len f = (case f of Seq xs \<Rightarrow> Inr (length xs) | Obj _ \<Rightarrow> Inl TypeError)"

definition field_item :: "'v field \<Rightarrow> int \<Rightarrow> error + 'v" where
  "field_item f i = (case f of Seq xs \<Rightarrow> getitem xs i | Obj _ \<Rightarrow> Inl TypeError)"

text \<open>
  \<^verbatim>\<open>self.buf[sid].append(field[s_i])\<close>: the bucket is looked up first (IndexError when
  \<open>sid\<close> is out of range), then the argument (IndexError when the field is too short,
  TypeError when it has no items), then the value is appended to the bucket in place.
\<close>

definition append_at :: "'v list list \<Rightarrow> int \<Rightarrow> 'v field \<Rightarrow> nat \<Rightarrow> error + 'v list list" where
  "append_at buf sid field s_i =
     (case list_index (length buf) sid of
        Inl e \<Rightarrow> Inl e
      | Inr j \<Rightarrow>
         (case field_item field (int s_i) of
            Inl e \<Rightarrow> Inl e
          | Inr v \<Rightarrow> Inr (buf[j := buf ! j @ [v]])))"

section \<open>What the buffers take from numpy\<close>

text \<open>
  The buffers store whatever values they are given and leave three things to numpy,
  which are parameters of the model:
  \<^item> \<open>np_sum xs\<close> is \<^verbatim>\<open>np.sum(xs)\<close> of a list of rewards: the sum in the number
    type of the rewards (64-bit integers wrap around, floats are rounded);
  \<^item> \<open>truthy x\<close> says that the done flag \<open>x\<close>, a Boolean or a number, counts as
    true for \<^verbatim>\<open>np.where\<close>, that is, is not zero;
  \<^item> \<open>shape x\<close> is the numpy shape of a value, \<open>[]\<close> for a scalar.
\<close>

record 'a numpy =
  np_sum :: "'a list \<Rightarrow> 'a"
  truthy :: "'a \<Rightarrow> bool"
  shape :: "'a \<Rightarrow> nat list"

text \<open>\<^verbatim>\<open>np.where(flags)[0]\<close>: the ascending list of the positions whose flag is true.\<close>

definition np_where :: "'a numpy \<Rightarrow> 'a list \<Rightarrow> nat list" where
  "np_where np flags = filter (\<lambda>i. truthy np (flags ! i)) [0..<length flags]"

definition pyval_shape :: "('a \<Rightarrow> nat list) \<Rightarrow> 'a pyval \<Rightarrow> nat list" where
  "pyval_shape sh v = (case v of PyInt _ \<Rightarrow> [] | PyObj x \<Rightarrow> sh x)"

text \<open>
  \<^verbatim>\<open>np.random.randint(low, high, size=n)\<close>. The generator is a parameter: \<open>rng k\<close> is
  the raw number behind the \<open>k\<close>-th draw, reduced to the interval \<open>[low, high)\<close>. An
  empty interval raises ValueError (numpy returns an empty array without looking at the
  bounds when \<open>n = 0\<close>).
\<close>

definition randint :: "(nat \<Rightarrow> nat) \<Rightarrow> int \<Rightarrow> int \<Rightarrow> nat \<Rightarrow> error + nat list" where
  "randint rng low high n =
     (if n = 0 then Inr []
      else if high \<le> low then Inl ValueError
      else Inr (map (\<lambda>k. nat (low + int (rng k mod nat (high - low)))) [0..<n]))"

text \<open>\<^verbatim>\<open>arr[sample_index]\<close> for an index array: IndexError when an index is out of range.\<close>

definition take_rows :: "'v list \<Rightarrow> nat list \<Rightarrow> error + 'v list" where
  "take_rows xs sample_index =
     (if \<forall>i \<in> set sample_index. i < length xs then Inr (map (\<lambda>i. xs ! i) sample_index)
      else Inl IndexError)"

text \<open>
  \<^verbatim>\<open>np.stack(xs)\<close> raises ValueError on an empty list and on values of unequal shape;
  the stacked array has the values as its rows.
\<close>

definition same_shape :: "('v \<Rightarrow> nat list) \<Rightarrow> 'v list \<Rightarrow> bool" where
  "same_shape sh xs \<longleftrightarrow> list_all (\<lambda>x. sh x = sh (hd xs)) xs"

definition np_stack :: "('v \<Rightarrow> nat list) \<Rightarrow> 'v list \<Rightarrow> error + 'v list" where
  "np_stack sh xs = (if xs = [] \<or> \<not> same_shape sh xs then Inl ValueError else Inr xs)"

text \<open>\<^verbatim>\<open>np.stack(xs)[sample_index]\<close>\<close>

definition stack_rows :: "('v \<Rightarrow> nat list) \<Rightarrow> 'v list \<Rightarrow> nat list \<Rightarrow> error + 'v list" where
  "stack_rows sh xs sample_index =
     (case np_stack sh xs of Inl e \<Rightarrow> Inl e | Inr arr \<Rightarrow> take_rows arr sample_index)"

text \<open>
  \<^verbatim>\<open>np.stack(xs)[sample_index, :]\<close>: the second index needs a second axis, so scalar
  rows raise IndexError.
\<close>

definition stack_rows_all :: "('v \<Rightarrow> nat list) \<Rightarrow> 'v list \<Rightarrow> nat list \<Rightarrow> error + 'v list" where
  "stack_rows_all sh xs sample_index =
     (case np_stack sh xs of
        Inl e \<Rightarrow> Inl e
      | Inr arr \<Rightarrow> if sh (hd arr) = [] then Inl IndexError else take_rows arr sample_index)"

text \<open>\<^verbatim>\<open>buffer_capacity // num_scenario\<close>: floor division, ZeroDivisionError on zero.\<close>

definition floordiv :: "int \<Rightarrow> int \<Rightarrow> error + int" where
  "floordiv a b = (if b = 0 then Inl ZeroDivisionError else Inr (a div b))"

section \<open>The generic replay buffer\<close>

text \<open>
  \<^verbatim>\<open>class ReplayBuffer\<close>. Every stored value (action, observation, reward, done flag)
  is a value of type \<open>'a\<close>, as Python has it. \<open>buffer_static_obs\<close> and
  \<open>buffer_init_action\<close> hold the two arguments of each \<^verbatim>\<open>store_init\<close> call as they
  came, and the columns of \<open>buffer_init_additional_dict\<close> one argument per call.
\<close>

record 'a replay_buffer =
  mode :: string
  buffer_capacity :: int
  num_scenario :: int
  buffer_len :: int
  buffer_ego_actions :: "'a list list"
  buffer_scenario_actions :: "'a list list"
  buffer_obs :: "'a list list"
  buffer_next_obs :: "'a list list"
  buffer_rewards :: "'a list list"
  buffer_dones :: "'a list list"
  buffer_additional_dict :: "(string, 'a pyval list) pydict list"
  buffer_static_obs :: "'a field list"
  buffer_init_action :: "'a field list"
  buffer_episode_reward :: "'a list"
  buffer_init_additional_dict :: "(string, 'a field list) pydict"
  init_buffer_len :: int

text \<open>\<^verbatim>\<open>__init__\<close>, with \<^verbatim>\<open>reset_buffer\<close> and \<^verbatim>\<open>reset_init_buffer\<close>.\<close>

definition reset_buffer :: "'a replay_buffer \<Rightarrow> 'a replay_buffer" where
  "reset_buffer st = st\<lparr>
     buffer_ego_actions := map (\<lambda>_. []) (py_range (num_scenario st)),
     buffer_scenario_actions := map (\<lambda>_. []) (py_range (num_scenario st)),
     buffer_obs := map (\<lambda>_. []) (py_range (num_scenario st)),
     buffer_next_obs := map (\<lambda>_. []) (py_range (num_scenario st)),
     buffer_rewards := map (\<lambda>_. []) (py_range (num_scenario st)),
     buffer_dones := map (\<lambda>_. []) (py_range (num_scenario st)),
     buffer_additional_dict := map (\<lambda>_. []) (py_range (num_scenario st))\<rparr>"

definition reset_init_buffer :: "'a replay_buffer \<Rightarrow> 'a replay_buffer" where
  "reset_init_buffer st = st\<lparr>
     buffer_static_obs := [],
     buffer_init_action := [],
     buffer_episode_reward := [],
     buffer_init_additional_dict := [],
     init_buffer_len := 0\<rparr>"

definition ReplayBuffer :: "int \<Rightarrow> string \<Rightarrow> int \<Rightarrow> 'a replay_buffer" where
  "ReplayBuffer n m cap =
     reset_init_buffer (reset_buffer
       \<lparr>mode = m, buffer_capacity = cap, num_scenario = n, buffer_len = 0,
        buffer_ego_actions = [], buffer_scenario_actions = [], buffer_obs = [],
        buffer_next_obs = [], buffer_rewards = [], buffer_dones = [],
        buffer_additional_dict = [], buffer_static_obs = [], buffer_init_action = [],
        buffer_episode_reward = [], buffer_init_additional_dict = [],
        init_buffer_len = 0\<rparr>)"

subsection \<open>finish_one_episode\<close>

text \<open>
  The body of the loop for one scenario id, with \<open>ds\<close> the array
  \<^verbatim>\<open>np.where(self.buffer_dones[s_i])[0]\<close>:
  \<^verbatim>\<open>start_ = dones[-2] if len(dones) > 1 else -1; end_ = dones[-1]\<close>, where
  \<^verbatim>\<open>dones[-1]\<close> raises IndexError on an empty array; then \<^verbatim>\<open>np.sum\<close> of
  \<^verbatim>\<open>rewards[start_+1:end_+1]\<close> is appended to \<^verbatim>\<open>buffer_episode_reward\<close>.
\<close>

definition episode_span :: "nat list \<Rightarrow> error + int \<times> int" where
  "episode_span ds =
     (let dones = map int ds in
      case (if length dones > 1 then getitem dones (- 2) else Inr (- 1)) of
        Inl e \<Rightarrow> Inl e
      | Inr start_ \<Rightarrow>
         (case getitem dones (- 1) of
            Inl e \<Rightarrow> Inl e
          | Inr end_ \<Rightarrow> Inr (start_, end_)))"

fun finish_loop ::
  "'a numpy \<Rightarrow> 'a replay_buffer \<Rightarrow> nat list \<Rightarrow> error option \<times> 'a replay_buffer" where
  "finish_loop np st [] = (None, st)"
| "finish_loop np st (s_i # rest) =
     (case getitem (buffer_dones st) (int s_i) of
        Inl e \<Rightarrow> (Some e, st)
      | Inr flags \<Rightarrow>
         (case episode_span (np_where np flags) of
            Inl e \<Rightarrow> (Some e, st)
          | Inr (start_, end_) \<Rightarrow>
             (case getitem (buffer_rewards st) (int s_i) of
                Inl e \<Rightarrow> (Some e, st)
              | Inr rs \<Rightarrow>
                 finish_loop np
                   (st\<lparr>buffer_episode_reward :=
                        buffer_episode_reward st @ [np_sum np (slice rs (start_ + 1) (end_ + 1))]\<rparr>)
                   rest)))"

definition finish_one_episode ::
  "'a numpy \<Rightarrow> 'a replay_buffer \<Rightarrow> error option \<times> 'a replay_buffer" where
  "finish_one_episode np st = finish_loop np st (py_range (num_scenario st))"

subsection \<open>store\<close>

text \<open>
  \<^verbatim>\<open>data_list\<close> is a list whose first six entries are read, \<^verbatim>\<open>data_list[0]\<close> to
  \<^verbatim>\<open>data_list[5]\<close> (IndexError when one is missing); \<^verbatim>\<open>additional_dict\<close> is the list of
  tag dictionaries, one per position, each with the key \<^verbatim>\<open>'scenario_id'\<close> and any
  number of extra keys.
\<close>

record 'a fields =
  ego_actions :: "'a field"
  scenario_actions :: "'a field"
  obs :: "'a field"
  next_obs :: "'a field"
  rewards :: "'a field"
  dones :: "'a field"

definition read_fields :: "'a field list \<Rightarrow> error + 'a fields" where
  "read_fields data_list =
     (case getitem data_list 0 of Inl e \<Rightarrow> Inl e | Inr f0 \<Rightarrow>
     (case getitem data_list 1 of Inl e \<Rightarrow> Inl e | Inr f1 \<Rightarrow>
     (case getitem data_list 2 of Inl e \<Rightarrow> Inl e | Inr f2 \<Rightarrow>
     (case getitem data_list 3 of Inl e \<Rightarrow> Inl e | Inr f3 \<Rightarrow>
     (case getitem data_list 4 of Inl e \<Rightarrow> Inl e | Inr f4 \<Rightarrow>
     (case getitem data_list 5 of Inl e \<Rightarrow> Inl e | Inr f5 \<Rightarrow>
        Inr \<lparr>ego_actions = f0, scenario_actions = f1, obs = f2, next_obs = f3,
             rewards = f4, dones = f5\<rparr>))))))"

text \<open>
  The inner loop over the keys of one tag, \<^verbatim>\<open>for key in tag.keys()\<close> with the value
  \<^verbatim>\<open>tag[key]\<close>, that is, over the items of the tag. The column is looked up in
  \<^verbatim>\<open>self.buffer_additional_dict[s_i]\<close>: the index is the position \<open>s_i\<close> in the batch,
  as the source has it, not the scenario id \<open>sid\<close> that selects the six main buckets.
\<close>

fun store_extras ::
  "'a replay_buffer \<Rightarrow> nat \<Rightarrow> (string, 'a pyval) pydict \<Rightarrow> error option \<times> 'a replay_buffer" where
  "store_extras st s_i [] = (None, st)"
| "store_extras st s_i ((key, v) # rest) =
     (if key = ''scenario_id'' then store_extras st s_i rest
      else
        (case getitem (buffer_additional_dict st) (int s_i) of
           Inl e \<Rightarrow> (Some e, st)
         | Inr d \<Rightarrow>
            store_extras
              (st\<lparr>buffer_additional_dict :=
                   (buffer_additional_dict st)[s_i := dict_append d key v]\<rparr>)
              s_i rest))"

text \<open>
  The six appends of one position, in the order of the source. A failing append leaves
  the appends before it in place.
\<close>

definition store_fields ::
  "'a replay_buffer \<Rightarrow> 'a fields \<Rightarrow> int \<Rightarrow> nat \<Rightarrow> error option \<times> 'a replay_buffer" where
  "store_fields st dl sid s_i =
     (case append_at (buffer_ego_actions st) sid (ego_actions dl) s_i of
        Inl e \<Rightarrow> (Some e, st)
      | Inr b1 \<Rightarrow>
     let st1 = st\<lparr>buffer_ego_actions := b1\<rparr> in
     (case append_at (buffer_scenario_actions st1) sid (scenario_actions dl) s_i of
        Inl e \<Rightarrow> (Some e, st1)
      | Inr b2 \<Rightarrow>
     let st2 = st1\<lparr>buffer_scenario_actions := b2\<rparr> in
     (case append_at (buffer_obs st2) sid (obs dl) s_i of
        Inl e \<Rightarrow> (Some e, st2)
      | Inr b3 \<Rightarrow>
     let st3 = st2\<lparr>buffer_obs := b3\<rparr> in
     (case append_at (buffer_next_obs st3) sid (next_obs dl) s_i of
        Inl e \<Rightarrow> (Some e, st3)
      | Inr b4 \<Rightarrow>
     let st4 = st3\<lparr>buffer_next_obs := b4\<rparr> in
     (case append_at (buffer_rewards st4) sid (rewards dl) s_i of
        Inl e \<Rightarrow> (Some e, st4)
      | Inr b5 \<Rightarrow>
     let st5 = st4\<lparr>buffer_rewards := b5\<rparr> in
     (case append_at (buffer_dones st5) sid (dones dl) s_i of
        Inl e \<Rightarrow> (Some e, st5)
      | Inr b6 \<Rightarrow> (None, st5\<lparr>buffer_dones := b6\<rparr>)))))))"

text \<open>
  One round of the outer loop: \<^verbatim>\<open>sid = additional_dict[s_i]['scenario_id']\<close> (KeyError
  when the key is missing; a value that is no integer raises TypeError at the first
  list index), the six appends, then the extra keys.
\<close>

definition store_step ::
  "'a replay_buffer \<Rightarrow> 'a fields \<Rightarrow> (string, 'a pyval) pydict list \<Rightarrow> nat
     \<Rightarrow> error option \<times> 'a replay_buffer" where
  "store_step st dl additional_dict s_i =
     (case getitem additional_dict (int s_i) of
        Inl e \<Rightarrow> (Some e, st)
      | Inr tag \<Rightarrow>
         (case dict_get tag ''scenario_id'' of
            Inl e \<Rightarrow> (Some e, st)
          | Inr (PyObj _) \<Rightarrow> (Some TypeError, st)
          | Inr (PyInt sid) \<Rightarrow>
             (case store_fields st dl sid s_i of
                (Some e, st') \<Rightarrow> (Some e, st')
              | (None, st') \<Rightarrow> store_extras st' s_i tag)))"

fun store_loop ::
  "'a replay_buffer \<Rightarrow> 'a fields \<Rightarrow> (string, 'a pyval) pydict list \<Rightarrow> nat list
     \<Rightarrow> error option \<times> 'a replay_buffer" where
  "store_loop st dl additional_dict [] = (None, st)"
| "store_loop st dl additional_dict (s_i # rest) =
     (case store_step st dl additional_dict s_i of
        (Some e, st') \<Rightarrow> (Some e, st')
      | (None, st') \<Rightarrow> store_loop st' dl additional_dict rest)"

text \<open>
  The six fields are read first, then \<^verbatim>\<open>self.buffer_len += len(rewards)\<close> (TypeError
  when the rewards have no length), then the loop runs over the positions of the tags.
\<close>

definition store ::
  "'a replay_buffer \<Rightarrow> 'a field list \<Rightarrow> (string, 'a pyval) pydict list
     \<Rightarrow> error option \<times> 'a replay_buffer" where
  "store st data_list additional_dict =
     (case read_fields data_list of
        Inl e \<Rightarrow> (Some e, st)
      | Inr dl \<Rightarrow>
         (case field_len (rewards dl) of
            Inl e \<Rightarrow> (Some e, st)
          | Inr n \<Rightarrow>
             store_loop (st\<lparr>buffer_len := buffer_len st + int n\<rparr>)
               dl additional_dict (py_range (int (length additional_dict)))))"

subsection \<open>store_init\<close>

text \<open>
  \<^verbatim>\<open>data_list[0]\<close> is the static observation, \<^verbatim>\<open>data_list[1]\<close> the array of initial
  actions. Both are appended before \<^verbatim>\<open>len(scenario_init_action)\<close> is taken, which
  raises TypeError when the initial actions have no length. \<^verbatim>\<open>if additional_dict:\<close>
  skips both \<^verbatim>\<open>None\<close> and the empty dictionary; the loop runs over the items of the
  dictionary, as in \<^verbatim>\<open>store\<close>.
\<close>

fun store_init_extras ::
  "(string, 'a field list) pydict \<Rightarrow> (string, 'a field) pydict \<Rightarrow> (string, 'a field list) pydict" where
  "store_init_extras d [] = d"
| "store_init_extras d ((key, v) # rest) = store_init_extras (dict_append d key v) rest"

definition store_init ::
  "'a replay_buffer \<Rightarrow> 'a field list \<Rightarrow> (string, 'a field) pydict option
     \<Rightarrow> error option \<times> 'a replay_buffer" where
  "store_init st data_list additional_dict =
     (case getitem data_list 0 of
        Inl e \<Rightarrow> (Some e, st)
      | Inr static_obs \<Rightarrow>
         (case getitem data_list 1 of
            Inl e \<Rightarrow> (Some e, st)
          | Inr scenario_init_action \<Rightarrow>
             (let st1 = st\<lparr>buffer_static_obs := buffer_static_obs st @ [static_obs],
                           buffer_init_action := buffer_init_action st @ [scenario_init_action]\<rparr>
              in case field_len scenario_init_action of
                   Inl e \<Rightarrow> (Some e, st1)
                 | Inr n \<Rightarrow>
                    (let st2 = st1\<lparr>init_buffer_len := init_buffer_len st1 + int n\<rparr>
                     in case additional_dict of
                          None \<Rightarrow> (None, st2)
                        | Some d \<Rightarrow>
                           if d = [] then (None, st2)
                           else (None, st2\<lparr>buffer_init_additional_dict :=
                                   store_init_extras (buffer_init_additional_dict st2) d\<rparr>)))))"

subsection \<open>sample_init\<close>

text \<open>
  \<^verbatim>\<open>np.concatenate(xs, axis=0)\<close> of a list of arrays: ValueError on an empty list, on an
  entry that is no array and on rows of unequal shape; the result has the rows of the
  entries one after the other. (An entry without rows stands for an array of zero rows
  of the common row shape.) \<^verbatim>\<open>torch.cat\<close> fails at the same places, with RuntimeError
  and, for an entry that is no tensor, TypeError.
\<close>

definition is_seq :: "'v field \<Rightarrow> bool" where
  "is_seq f = (case f of Seq _ \<Rightarrow> True | Obj _ \<Rightarrow> False)"

definition seq_items :: "'v field \<Rightarrow> 'v list" where
  "seq_items f = (case f of Seq xs \<Rightarrow> xs | Obj _ \<Rightarrow> [])"

definition np_concatenate :: "('v \<Rightarrow> nat list) \<Rightarrow> 'v field list \<Rightarrow> error + 'v list" where
  "np_concatenate sh xss =
     (if xss = [] \<or> \<not> list_all is_seq xss \<or> \<not> same_shape sh (concat (map seq_items xss))
      then Inl ValueError
      else Inr (concat (map seq_items xss)))"

definition torch_cat :: "('v \<Rightarrow> nat list) \<Rightarrow> 'v field list \<Rightarrow> error + 'v list" where
  "torch_cat sh xss =
     (if xss = [] then Inl RuntimeError
      else if \<not> list_all is_seq xss then Inl TypeError
      else if \<not> same_shape sh (concat (map seq_items xss)) then Inl RuntimeError
      else Inr (concat (map seq_items xss)))"

record 'a init_batch =
  init_action :: "'a list"
  episode_reward :: "'a list"
  additional :: "(string, 'a list) pydict"

fun sample_init_extras ::
  "('a \<Rightarrow> nat list) \<Rightarrow> (string, 'a field list) pydict \<Rightarrow> int \<Rightarrow> nat list
     \<Rightarrow> error + (string, 'a list) pydict" where
  "sample_init_extras sh [] start_idx sample_index = Inr []"
| "sample_init_extras sh ((key, col) # rest) start_idx sample_index =
     (case torch_cat sh (slice_from col start_idx) of
        Inl e \<Rightarrow> Inl e
      | Inr tensor \<Rightarrow>
         (case take_rows tensor sample_index of
            Inl e \<Rightarrow> Inl e
          | Inr rows \<Rightarrow>
             (case sample_init_extras sh rest start_idx sample_index of
                Inl e \<Rightarrow> Inl e
              | Inr others \<Rightarrow> Inr ((key, rows) # others))))"

definition sample_init ::
  "'a numpy \<Rightarrow> 'a replay_buffer \<Rightarrow> nat \<Rightarrow> (nat \<Rightarrow> nat) \<Rightarrow> error + 'a init_batch" where
  "sample_init np st batch_size rng =
     (let num_trajectory = int (length (buffer_init_action st));
          start_idx = max 0 (num_trajectory - buffer_capacity st);
          prepared_init_action = slice_from (buffer_init_action st) start_idx;
          prepared_episode_reward = slice_from (buffer_episode_reward st) start_idx
      in case randint rng 0 (int (length prepared_init_action)) batch_size of
           Inl e \<Rightarrow> Inl e
         | Inr sample_index \<Rightarrow>
            (case np_concatenate (shape np) prepared_init_action of
               Inl e \<Rightarrow> Inl e
             | Inr rows \<Rightarrow>
            (case take_rows rows sample_index of
               Inl e \<Rightarrow> Inl e
             | Inr ia \<Rightarrow>
            (case take_rows prepared_episode_reward sample_index of
               Inl e \<Rightarrow> Inl e
             | Inr er \<Rightarrow>
            (case sample_init_extras (shape np) (buffer_init_additional_dict st)
                    start_idx sample_index of
               Inl e \<Rightarrow> Inl e
             | Inr ex \<Rightarrow>
                Inr \<lparr>init_action = ia, episode_reward = er, additional = ex\<rparr>)))))"

subsection \<open>sample\<close>

record 'a prepared =
  prepared_ego_actions :: "'a list"
  prepared_scenario_actions :: "'a list"
  prepared_obs :: "'a list"
  prepared_next_obs :: "'a list"
  prepared_rewards :: "'a list"
  prepared_dones :: "'a list"

record 'a batch =
  action :: "'a list"
  state :: "'a list"
  n_state :: "'a list"
  reward :: "'a list"
  done_rows :: "'a list"

text \<open>
  The loop over the scenario ids: the start index comes from the length of the reward
  bucket and cuts every field of that scenario id.
\<close>

fun sample_loop ::
  "'a replay_buffer \<Rightarrow> int \<Rightarrow> 'a prepared \<Rightarrow> nat list \<Rightarrow> error + 'a prepared" where
  "sample_loop st samples_per_trajectory p [] = Inr p"
| "sample_loop st samples_per_trajectory p (s_i # rest) =
     (case getitem (buffer_rewards st) (int s_i) of Inl e \<Rightarrow> Inl e | Inr rs \<Rightarrow>
     (let num_trajectory = int (length rs);
          start_idx = max 0 (num_trajectory - samples_per_trajectory) in
     (case getitem (buffer_ego_actions st) (int s_i) of Inl e \<Rightarrow> Inl e | Inr ea \<Rightarrow>
     (case getitem (buffer_scenario_actions st) (int s_i) of Inl e \<Rightarrow> Inl e | Inr sa \<Rightarrow>
     (case getitem (buffer_obs st) (int s_i) of Inl e \<Rightarrow> Inl e | Inr ob \<Rightarrow>
     (case getitem (buffer_next_obs st) (int s_i) of Inl e \<Rightarrow> Inl e | Inr nob \<Rightarrow>
     (case getitem (buffer_dones st) (int s_i) of Inl e \<Rightarrow> Inl e | Inr ds \<Rightarrow>
      sample_loop st samples_per_trajectory
        \<lparr>prepared_ego_actions = prepared_ego_actions p @ slice_from ea start_idx,
         prepared_scenario_actions = prepared_scenario_actions p @ slice_from sa start_idx,
         prepared_obs = prepared_obs p @ slice_from ob start_idx,
         prepared_next_obs = prepared_next_obs p @ slice_from nob start_idx,
         prepared_rewards = prepared_rewards p @ slice_from rs start_idx,
         prepared_dones = prepared_dones p @ slice_from ds start_idx\<rparr>
        rest)))))))"

definition prepare :: "'a replay_buffer \<Rightarrow> error + 'a prepared" where
  "prepare st =
     (case floordiv (buffer_capacity st) (num_scenario st) of
        Inl e \<Rightarrow> Inl e
      | Inr samples_per_trajectory \<Rightarrow>
         sample_loop st samples_per_trajectory
           \<lparr>prepared_ego_actions = [], prepared_scenario_actions = [], prepared_obs = [],
            prepared_next_obs = [], prepared_rewards = [], prepared_dones = []\<rparr>
           (py_range (num_scenario st)))"

text \<open>
  The action, reward and done rows are read with \<^verbatim>\<open>[sample_index]\<close>, the state and
  next-state rows with \<^verbatim>\<open>[sample_index, :]\<close>.
\<close>

definition sample ::
  "'a numpy \<Rightarrow> 'a replay_buffer \<Rightarrow> nat \<Rightarrow> (nat \<Rightarrow> nat) \<Rightarrow> error + 'a batch" where
  "sample np st batch_size rng =
     (case prepare st of Inl e \<Rightarrow> Inl e | Inr p \<Rightarrow>
     (case randint rng 0 (int (length (prepared_rewards p))) batch_size of
        Inl e \<Rightarrow> Inl e | Inr sample_index \<Rightarrow>
     (case (if mode st = ''train_agent''
            then stack_rows (shape np) (prepared_ego_actions p) sample_index
            else stack_rows (shape np) (prepared_scenario_actions p) sample_index) of
        Inl e \<Rightarrow> Inl e | Inr a \<Rightarrow>
     (case stack_rows_all (shape np) (prepared_obs p) sample_index of
        Inl e \<Rightarrow> Inl e | Inr s \<Rightarrow>
     (case stack_rows_all (shape np) (prepared_next_obs p) sample_index of
        Inl e \<Rightarrow> Inl e | Inr ns \<Rightarrow>
     (case stack_rows (shape np) (prepared_rewards p) sample_index of
        Inl e \<Rightarrow> Inl e | Inr r \<Rightarrow>
     (case stack_rows (shape np) (prepared_dones p) sample_index of
        Inl e \<Rightarrow> Inl e | Inr d \<Rightarrow>
      Inr \<lparr>action = a, state = s, n_state = ns, reward = r, done_rows = d\<rparr>)))))))"

section \<open>The perception replay buffer\<close>

text \<open>
  \<^verbatim>\<open>class ReplayBuffer_Perception\<close>. Its fields that share a name with a field of
  \<open>replay_buffer\<close> carry the prefix \<open>p_\<close>. Everything it stores comes out of a
  dictionary, so the buckets hold dictionary values. \<^verbatim>\<open>finish_one_episode\<close> and
  \<^verbatim>\<open>store_init\<close> are \<^verbatim>\<open>pass\<close>.
\<close>

record 'a perception_buffer =
  p_mode :: string
  p_buffer_capacity :: int
  p_num_scenario :: int
  p_buffer_len :: int
  buffer_bbox_label :: "'a pyval list list"
  buffer_predictions :: "'a pyval list list"
  p_buffer_scenario_actions :: "'a pyval list list"
  p_buffer_obs :: "'a pyval list list"
  buffer_loss :: "'a pyval list list"

definition ReplayBuffer_Perception :: "int \<Rightarrow> string \<Rightarrow> int \<Rightarrow> 'a perception_buffer" where
  "ReplayBuffer_Perception n m cap =
     \<lparr>p_mode = m, p_buffer_capacity = cap, p_num_scenario = n, p_buffer_len = 0,
      buffer_bbox_label = map (\<lambda>_. []) (py_range n),
      buffer_predictions = map (\<lambda>_. []) (py_range n),
      p_buffer_scenario_actions = map (\<lambda>_. []) (py_range n),
      p_buffer_obs = map (\<lambda>_. []) (py_range n),
      buffer_loss = map (\<lambda>_. []) (py_range n)\<rparr>"

definition p_finish_one_episode :: "'a perception_buffer \<Rightarrow> 'a perception_buffer" where
  "p_finish_one_episode st = st"

definition p_store_init ::
  "'a perception_buffer \<Rightarrow> 'a field list \<Rightarrow> (string, 'a field) pydict option
     \<Rightarrow> 'a perception_buffer" where
  "p_store_init st data_list additional_dict = st"

text \<open>
  \<^verbatim>\<open>self.buf[sid].append(field[s_i][key])\<close>: the bucket lookup, then the position in
  the field, then the key of the dictionary found there.
\<close>

definition append_key_at ::
  "'v list list \<Rightarrow> int \<Rightarrow> (string, 'v) pydict field \<Rightarrow> nat \<Rightarrow> string
     \<Rightarrow> error + 'v list list" where
  "append_key_at buf sid field s_i key =
     (case list_index (length buf) sid of
        Inl e \<Rightarrow> Inl e
      | Inr j \<Rightarrow>
         (case field_item field (int s_i) of
            Inl e \<Rightarrow> Inl e
          | Inr d \<Rightarrow>
             (case dict_get d key of
                Inl e \<Rightarrow> Inl e
              | Inr v \<Rightarrow> Inr (buf[j := buf ! j @ [v]]))))"

definition p_store_fields ::
  "'a perception_buffer \<Rightarrow> (string, 'a pyval) pydict field \<Rightarrow> (string, 'a pyval) pydict field
     \<Rightarrow> (string, 'a pyval) pydict field \<Rightarrow> (string, 'a pyval) pydict field \<Rightarrow> int \<Rightarrow> nat
     \<Rightarrow> error option \<times> 'a perception_buffer" where
  "p_store_fields st ego_acts scenario_acts observations infos sid s_i =
     (case append_key_at (buffer_predictions st) sid ego_acts s_i ''od_result'' of
        Inl e \<Rightarrow> (Some e, st)
      | Inr b1 \<Rightarrow>
     let st1 = st\<lparr>buffer_predictions := b1\<rparr> in
     (case append_key_at (p_buffer_scenario_actions st1) sid scenario_acts s_i ''attack'' of
        Inl e \<Rightarrow> (Some e, st1)
      | Inr b2 \<Rightarrow>
     let st2 = st1\<lparr>p_buffer_scenario_actions := b2\<rparr> in
     (case append_key_at (p_buffer_obs st2) sid observations s_i ''img'' of
        Inl e \<Rightarrow> (Some e, st2)
      | Inr b3 \<Rightarrow>
     let st3 = st2\<lparr>p_buffer_obs := b3\<rparr> in
     (case append_key_at (buffer_bbox_label st3) sid infos s_i ''bbox_label'' of
        Inl e \<Rightarrow> (Some e, st3)
      | Inr b4 \<Rightarrow>
     let st4 = st3\<lparr>buffer_bbox_label := b4\<rparr> in
     (case append_key_at (buffer_loss st4) sid infos s_i ''iou_loss'' of
        Inl e \<Rightarrow> (Some e, st4)
      | Inr b5 \<Rightarrow> (None, st4\<lparr>buffer_loss := b5\<rparr>))))))"

definition p_store_step ::
  "'a perception_buffer \<Rightarrow> (string, 'a pyval) pydict field \<Rightarrow> (string, 'a pyval) pydict field
     \<Rightarrow> (string, 'a pyval) pydict field \<Rightarrow> (string, 'a pyval) pydict field \<Rightarrow> nat
     \<Rightarrow> error option \<times> 'a perception_buffer" where
  "p_store_step st ego_acts scenario_acts observations infos s_i =
     (case field_item infos (int s_i) of
        Inl e \<Rightarrow> (Some e, st)
      | Inr tag \<Rightarrow>
         (case dict_get tag ''scenario_id'' of
            Inl e \<Rightarrow> (Some e, st)
          | Inr (PyObj _) \<Rightarrow> (Some TypeError, st)
          | Inr (PyInt sid) \<Rightarrow>
              p_store_fields st ego_acts scenario_acts observations infos sid s_i))"

fun p_store_loop ::
  "'a perception_buffer \<Rightarrow> (string, 'a pyval) pydict field \<Rightarrow> (string, 'a pyval) pydict field
     \<Rightarrow> (string, 'a pyval) pydict field \<Rightarrow> (string, 'a pyval) pydict field \<Rightarrow> nat list
     \<Rightarrow> error option \<times> 'a perception_buffer" where
  "p_store_loop st ego_acts scenario_acts observations infos [] = (None, st)"
| "p_store_loop st ego_acts scenario_acts observations infos (s_i # rest) =
     (case p_store_step st ego_acts scenario_acts observations infos s_i of
        (Some e, st') \<Rightarrow> (Some e, st')
      | (None, st') \<Rightarrow> p_store_loop st' ego_acts scenario_acts observations infos rest)"

text \<open>
  \<^verbatim>\<open>assert len(data_list) == 4\<close> comes first, then \<^verbatim>\<open>len(infos)\<close> is added to
  \<open>buffer_len\<close> (TypeError when \<^verbatim>\<open>infos\<close> has no length), then the loop runs over the
  positions of \<^verbatim>\<open>infos\<close>.
\<close>

definition p_store ::
  "'a perception_buffer \<Rightarrow> (string, 'a pyval) pydict field list
     \<Rightarrow> error option \<times> 'a perception_buffer" where
  "p_store st data_list =
     (case data_list of
        [ego_acts, scenario_acts, observations, infos] \<Rightarrow>
          (case field_len infos of
             Inl e \<Rightarrow> (Some e, st)
           | Inr n \<Rightarrow>
              p_store_loop (st\<lparr>p_buffer_len := p_buffer_len st + int n\<rparr>)
                ego_acts scenario_acts observations infos (py_range (int n)))
      | _ \<Rightarrow> (Some AssertionError, st))"

record 'a p_prepared =
  prepared_bbox_label :: "'a pyval list"
  prepared_predictions :: "'a pyval list"
  p_prepared_obs :: "'a pyval list"
  p_prepared_scenario_actions :: "'a pyval list"
  prepared_loss :: "'a pyval list"

record 'a p_batch =
  label :: "'a pyval list"
  image :: "'a pyval list"
  loss :: "'a pyval list"

fun p_sample_loop ::
  "'a perception_buffer \<Rightarrow> int \<Rightarrow> 'a p_prepared \<Rightarrow> nat list \<Rightarrow> error + 'a p_prepared" where
  "p_sample_loop st samples_per_trajectory p [] = Inr p"
| "p_sample_loop st samples_per_trajectory p (s_i # rest) =
     (case getitem (buffer_loss st) (int s_i) of Inl e \<Rightarrow> Inl e | Inr ls \<Rightarrow>
     (let num_trajectory = int (length ls);
          start_idx = max 0 (num_trajectory - samples_per_trajectory) in
     (case getitem (buffer_bbox_label st) (int s_i) of Inl e \<Rightarrow> Inl e | Inr bl \<Rightarrow>
     (case getitem (buffer_predictions st) (int s_i) of Inl e \<Rightarrow> Inl e | Inr pr \<Rightarrow>
     (case getitem (p_buffer_scenario_actions st) (int s_i) of Inl e \<Rightarrow> Inl e | Inr sa \<Rightarrow>
     (case getitem (p_buffer_obs st) (int s_i) of Inl e \<Rightarrow> Inl e | Inr ob \<Rightarrow>
      p_sample_loop st samples_per_trajectory
        \<lparr>prepared_bbox_label = prepared_bbox_label p @ slice_from bl start_idx,
         prepared_predictions = prepared_predictions p @ slice_from pr start_idx,
         p_prepared_obs = p_prepared_obs p @ slice_from ob start_idx,
         p_prepared_scenario_actions = p_prepared_scenario_actions p @ slice_from sa start_idx,
         prepared_loss = prepared_loss p @ slice_from ls start_idx\<rparr>
        rest))))))"

definition p_prepare :: "'a perception_buffer \<Rightarrow> error + 'a p_prepared" where
  "p_prepare st =
     (case floordiv (p_buffer_capacity st) (p_num_scenario st) of
        Inl e \<Rightarrow> Inl e
      | Inr samples_per_trajectory \<Rightarrow>
         p_sample_loop st samples_per_trajectory
           \<lparr>prepared_bbox_label = [], prepared_predictions = [], p_prepared_obs = [],
            p_prepared_scenario_actions = [], prepared_loss = []\<rparr>
           (py_range (p_num_scenario st)))"

text \<open>
  The label and image rows are read with \<^verbatim>\<open>[sample_index, :]\<close>, the loss rows with
  \<^verbatim>\<open>[sample_index]\<close>.
\<close>

definition p_sample ::
  "'a numpy \<Rightarrow> 'a perception_buffer \<Rightarrow> nat \<Rightarrow> (nat \<Rightarrow> nat) \<Rightarrow> error + 'a p_batch" where
  "p_sample np st batch_size rng =
     (case p_prepare st of Inl e \<Rightarrow> Inl e | Inr p \<Rightarrow>
     (case randint rng 0 (int (length (prepared_loss p))) batch_size of
        Inl e \<Rightarrow> Inl e | Inr sample_index \<Rightarrow>
     (case stack_rows_all (pyval_shape (shape np)) (prepared_bbox_label p) sample_index of
        Inl e \<Rightarrow> Inl e | Inr l \<Rightarrow>
     (case stack_rows_all (pyval_shape (shape np)) (p_prepared_obs p) sample_index of
        Inl e \<Rightarrow> Inl e | Inr im \<Rightarrow>
     (case stack_rows (pyval_shape (shape np)) (prepared_loss p) sample_index of
        Inl e \<Rightarrow> Inl e | Inr lo \<Rightarrow>
      Inr \<lparr>label = l, image = im, loss = lo\<rparr>)))))"

section \<open>Invariants and reference notions\<close>

text \<open>
  The seven outer lists of the generic buffer have one bucket per scenario id. Every
  operation keeps this, also when it fails: buckets are only ever updated in place.
\<close>

definition shaped :: "'a replay_buffer \<Rightarrow> bool" where
  "shaped st \<longleftrightarrow>
     length (buffer_ego_actions st) = nat (num_scenario st) \<and>
     length (buffer_scenario_actions st) = nat (num_scenario st) \<and>
     length (buffer_obs st) = nat (num_scenario st) \<and>
     length (buffer_next_obs st) = nat (num_scenario st) \<and>
     length (buffer_rewards st) = nat (num_scenario st) \<and>
     length (buffer_dones st) = nat (num_scenario st) \<and>
     length (buffer_additional_dict st) = nat (num_scenario st)"

text \<open>
  A bucket of done flags has a done marker when one of its flags is true. The episode
  return in the words of the specification: with \<open>D\<close> the ascending list of the
  indices whose done flag is true, \<^verbatim>\<open>np.sum\<close> of the rewards at the indices
  \<open>D[-2]+1 \<dots> D[-1]\<close> when \<open>D\<close> has more than one element, and at \<open>0 \<dots> D[-1]\<close>
  otherwise (an index beyond the end of the reward bucket contributes nothing).
\<close>

definition has_marker :: "'a numpy \<Rightarrow> 'a list \<Rightarrow> bool" where
  "has_marker np flags \<longleftrightarrow> list_ex (truthy np) flags"

definition episode_sum :: "'a numpy \<Rightarrow> 'a list \<Rightarrow> 'a list \<Rightarrow> 'a" where
  "episode_sum np rs flags =
     (let D = np_where np flags;
          lo = (if length D > 1 then D ! (length D - 2) + 1 else 0);
          hi = last D
      in np_sum np (map (\<lambda>i. rs ! i) (filter (\<lambda>i. i < length rs) [lo..<Suc hi])))"

definition all_done :: "'a numpy \<Rightarrow> 'a replay_buffer \<Rightarrow> bool" where
  "all_done np st \<longleftrightarrow>
     (\<forall>s \<in> set (py_range (num_scenario st)). has_marker np (buffer_dones st ! s))"

text \<open>
  The numpy of the examples: a value is a 64-bit integer or a vector of 64-bit
  integers. \<^verbatim>\<open>np.sum\<close> adds up all entries in 64-bit two's complement, a flag is true
  when it is not zero, and a vector has its length as its shape.
\<close>

datatype ndarray = Scalar "64 word" | Vector "64 word list"

fun entries :: "ndarray \<Rightarrow> 64 word list" where
  "entries (Scalar w) = [w]"
| "entries (Vector ws) = ws"

fun ndarray_shape :: "ndarray \<Rightarrow> nat list" where
  "ndarray_shape (Scalar w) = []"
| "ndarray_shape (Vector ws) = [length ws]"

definition int64_numpy :: "ndarray numpy" where
  "int64_numpy =
     \<lparr>np_sum = (\<lambda>xs. Scalar (sum_list (concat (map entries xs)))),
      truthy = (\<lambda>x. list_ex (\<lambda>w. w \<noteq> 0) (entries x)),
      shape = ndarray_shape\<rparr>"

text \<open>
  A batch of one transition whose six values can be told apart: ego action \<open>[x]\<close>,
  scenario action \<open>[1000 + x]\<close>, observation \<open>[2000 + x]\<close>, next observation
  \<open>[3000 + x]\<close>, reward \<open>r\<close> and done flag \<open>d\<close>; and a tag that carries a scenario
  id and no extra key.
\<close>

definition transition :: "64 word \<Rightarrow> 64 word \<Rightarrow> 64 word \<Rightarrow> ndarray field list" where
  "transition x r d =
     [Seq [Vector [x]], Seq [Vector [1000 + x]], Seq [Vector [2000 + x]],
      Seq [Vector [3000 + x]], Seq [Scalar r], Seq [Scalar d]]"

definition id_tag :: "int \<Rightarrow> (string, ndarray pyval) pydict" where
  "id_tag sid = [(''scenario_id'', PyInt sid)]"

text \<open>
  One simulation step of a single scenario slot, as the orchestration loop stores it:
  a batch of one transition with reward \<open>r\<close> and done flag \<open>d\<close> for scenario id 0.
\<close>

definition store_one :: "ndarray replay_buffer \<Rightarrow> 64 word \<Rightarrow> 64 word \<Rightarrow> ndarray replay_buffer" where
  "store_one st r d = snd (store st (transition 0 r d) [id_tag 0])"

definition two_steps_done :: "ndarray replay_buffer" where
  "two_steps_done = store_one (store_one (ReplayBuffer 1 ''train_agent'' 1000) 1 0) 2 1"

text \<open>
  A buffer of two scenario slots after one step of each, in which only scenario id 0
  has finished its episode (\<open>half_done\<close>), and one in which only scenario id 1 has
  (\<open>late_done\<close>).
\<close>

definition half_done :: "ndarray replay_buffer" where
  "half_done =
     snd (store (ReplayBuffer 2 ''train_agent'' 1000)
       [Seq [Vector [0], Vector [0]], Seq [Vector [0], Vector [0]],
        Seq [Vector [0], Vector [0]], Seq [Vector [0], Vector [0]],
        Seq [Scalar 4, Scalar 5], Seq [Scalar 1, Scalar 0]]
       [id_tag 0, id_tag 1])"

definition late_done :: "ndarray replay_buffer" where
  "late_done =
     snd (store (ReplayBuffer 2 ''train_agent'' 1000)
       [Seq [Vector [0], Vector [0]], Seq [Vector [0], Vector [0]],
        Seq [Vector [0], Vector [0]], Seq [Vector [0], Vector [0]],
        Seq [Scalar 4, Scalar 5], Seq [Scalar 0, Scalar 1]]
       [id_tag 0, id_tag 1])"

text \<open>
  The six fields that \<^verbatim>\<open>store\<close> reads from a list of at least six entries, and what
  it takes for position \<open>s_i\<close> of a field, or of all six, to hold a value.
\<close>

definition fields_of :: "'a field list \<Rightarrow> 'a fields" where
  "fields_of data_list =
     \<lparr>ego_actions = data_list ! 0, scenario_actions = data_list ! 1, obs = data_list ! 2,
      next_obs = data_list ! 3, rewards = data_list ! 4, dones = data_list ! 5\<rparr>"

definition has_item :: "'v field \<Rightarrow> nat \<Rightarrow> bool" where
  "has_item f s_i \<longleftrightarrow> (case f of Seq xs \<Rightarrow> s_i < length xs | Obj _ \<Rightarrow> False)"

definition all_items :: "'a fields \<Rightarrow> nat \<Rightarrow> bool" where
  "all_items dl s_i \<longleftrightarrow>
     has_item (ego_actions dl) s_i \<and> has_item (scenario_actions dl) s_i \<and>
     has_item (obs dl) s_i \<and> has_item (next_obs dl) s_i \<and>
     has_item (rewards dl) s_i \<and> has_item (dones dl) s_i"

text \<open>
  The alignment invariant: one bucket per scenario id in every field, and for each
  scenario id the six main fields hold the same number of values.
\<close>

definition aligned :: "'a replay_buffer \<Rightarrow> bool" where
  "aligned st \<longleftrightarrow> shaped st \<and>
     (\<forall>s \<in> set (py_range (num_scenario st)).
        length (buffer_ego_actions st ! s) = length (buffer_rewards st ! s) \<and>
        length (buffer_scenario_actions st ! s) = length (buffer_rewards st ! s) \<and>
        length (buffer_obs st ! s) = length (buffer_rewards st ! s) \<and>
        length (buffer_next_obs st ! s) = length (buffer_rewards st ! s) \<and>
        length (buffer_dones st ! s) = length (buffer_rewards st ! s))"

text \<open>
  Aligned input of \<^verbatim>\<open>store\<close>: the six fields are sequences that have the length of
  the list of tags.
\<close>

definition aligned_input :: "'a field list \<Rightarrow> (string, 'a pyval) pydict list \<Rightarrow> bool" where
  "aligned_input data_list tags \<longleftrightarrow>
     6 \<le> length data_list \<and>
     list_all (\<lambda>f. field_len f = Inr (length tags)) (take 6 data_list)"

text \<open>
  The states of a generic buffer that its public operations can produce, when every
  \<^verbatim>\<open>store\<close> receives aligned input. The scenario ids and the extra keys of the tags
  are arbitrary, and a call may fail: the state it leaves is a state of the buffer all
  the same. (\<^verbatim>\<open>sample\<close> and \<^verbatim>\<open>sample_init\<close> assign nothing.)
\<close>

inductive reachable :: "'a replay_buffer \<Rightarrow> bool" where
  reachable_new: "reachable (ReplayBuffer n m cap)"
| reachable_store:
    "reachable st \<Longrightarrow> aligned_input data_list tags \<Longrightarrow> reachable (snd (store st data_list tags))"
| reachable_store_init: "reachable st \<Longrightarrow> reachable (snd (store_init st data_list ad))"
| reachable_finish: "reachable st \<Longrightarrow> reachable (snd (finish_one_episode np st))"
| reachable_reset: "reachable st \<Longrightarrow> reachable (reset_buffer st)"
| reachable_reset_init: "reachable st \<Longrightarrow> reachable (reset_init_buffer st)"

definition p_shaped :: "'a perception_buffer \<Rightarrow> bool" where
  "p_shaped st \<longleftrightarrow>
     length (buffer_bbox_label st) = nat (p_num_scenario st) \<and>
     length (buffer_predictions st) = nat (p_num_scenario st) \<and>
     length (p_buffer_scenario_actions st) = nat (p_num_scenario st) \<and>
     length (p_buffer_obs st) = nat (p_num_scenario st) \<and>
     length (buffer_loss st) = nat (p_num_scenario st)"

definition p_aligned :: "'a perception_buffer \<Rightarrow> bool" where
  "p_aligned st \<longleftrightarrow> p_shaped st \<and>
     (\<forall>s \<in> set (py_range (p_num_scenario st)).
        length (buffer_bbox_label st ! s) = length (buffer_loss st ! s) \<and>
        length (buffer_predictions st ! s) = length (buffer_loss st ! s) \<and>
        length (p_buffer_scenario_actions st ! s) = length (buffer_loss st ! s) \<and>
        length (p_buffer_obs st ! s) = length (buffer_loss st ! s))"

text \<open>
  Aligned input of the perception \<^verbatim>\<open>store\<close>: four sequences of equal length whose
  dictionaries carry the keys that the loop reads.
\<close>

definition has_key :: "string \<Rightarrow> (string, 'v) pydict \<Rightarrow> bool" where
  "has_key k d \<longleftrightarrow> k \<in> set (dict_keys d)"

definition p_aligned_input :: "(string, 'a pyval) pydict field list \<Rightarrow> bool" where
  "p_aligned_input data_list \<longleftrightarrow>
     length data_list = 4 \<and> list_all is_seq data_list \<and>
     (let ego_acts = seq_items (data_list ! 0);
          scenario_acts = seq_items (data_list ! 1);
          observations = seq_items (data_list ! 2);
          infos = seq_items (data_list ! 3)
      in length ego_acts = length infos \<and>
         length scenario_acts = length infos \<and>
         length observations = length infos \<and>
         list_all (has_key ''od_result'') ego_acts \<and>
         list_all (has_key ''attack'') scenario_acts \<and>
         list_all (has_key ''img'') observations \<and>
         list_all (has_key ''bbox_label'') infos \<and>
         list_all (has_key ''iou_loss'') infos)"

inductive p_reachable :: "'a perception_buffer \<Rightarrow> bool" where
  p_reachable_new: "p_reachable (ReplayBuffer_Perception n m cap)"
| p_reachable_store:
    "p_reachable st \<Longrightarrow> p_aligned_input data_list \<Longrightarrow> p_reachable (snd (p_store st data_list))"
| p_reachable_store_init: "p_reachable st \<Longrightarrow> p_reachable (p_store_init st x y)"
| p_reachable_finish: "p_reachable st \<Longrightarrow> p_reachable (p_finish_one_episode st)"

text \<open>What the perception \<^verbatim>\<open>store\<close> reads at position \<open>s_i\<close> is there.\<close>

definition p_position_ok ::
  "(string, 'a pyval) pydict list \<Rightarrow> (string, 'a pyval) pydict list
     \<Rightarrow> (string, 'a pyval) pydict list \<Rightarrow> (string, 'a pyval) pydict list \<Rightarrow> nat \<Rightarrow> bool" where
  "p_position_ok ea sa ob infos s_i \<longleftrightarrow>
     s_i < length ea \<and> has_key ''od_result'' (ea ! s_i) \<and>
     s_i < length sa \<and> has_key ''attack'' (sa ! s_i) \<and>
     s_i < length ob \<and> has_key ''img'' (ob ! s_i) \<and>
     s_i < length infos \<and> has_key ''bbox_label'' (infos ! s_i) \<and>
     has_key ''iou_loss'' (infos ! s_i)"

text \<open>
  The demultiplexing example of the specification: a batch of three transitions tagged
  with the scenario ids 1, 0, 1, stored into a fresh buffer of two scenario slots.
\<close>

definition demux_batch :: "ndarray field list" where
  "demux_batch =
     [Seq [Vector [10], Vector [11], Vector [12]], Seq [Vector [20], Vector [21], Vector [22]],
      Seq [Vector [30], Vector [31], Vector [32]], Seq [Vector [40], Vector [41], Vector [42]],
      Seq [Scalar 1, Scalar 2, Scalar 3], Seq [Scalar 0, Scalar 0, Scalar 1]]"

definition demux_tags :: "(string, ndarray pyval) pydict list" where
  "demux_tags = [id_tag 1, id_tag 0, id_tag 1]"

definition demux_state :: "ndarray replay_buffer" where
  "demux_state = snd (store (ReplayBuffer 2 ''train_agent'' 1000) demux_batch demux_tags)"

definition p_demux_data :: "(string, ndarray pyval) pydict field list" where
  "p_demux_data =
     [Seq [[(''od_result'', PyObj (Vector [10]))], [(''od_result'', PyObj (Vector [11]))]],
      Seq [[(''attack'', PyObj (Vector [20]))], [(''attack'', PyObj (Vector [21]))]],
      Seq [[(''img'', PyObj (Vector [30]))], [(''img'', PyObj (Vector [31]))]],
      Seq [[(''scenario_id'', PyInt 1), (''bbox_label'', PyObj (Vector [40])),
            (''iou_loss'', PyObj (Scalar 50))],
           [(''scenario_id'', PyInt 1), (''bbox_label'', PyObj (Vector [41])),
            (''iou_loss'', PyObj (Scalar 51))]]]"

definition p_demux_state :: "ndarray perception_buffer" where
  "p_demux_state = snd (p_store (ReplayBuffer_Perception 2 ''train_agent'' 1000) p_demux_data)"

text \<open>
  Input of the perception \<^verbatim>\<open>store\<close> with four fields of length one and scenario id 1,
  in which the scenario action has no key \<^verbatim>\<open>'attack'\<close>.
\<close>

definition no_attack :: "(string, ndarray pyval) pydict field list" where
  "no_attack =
     [Seq [[(''od_result'', PyObj (Vector [10]))]],
      Seq [[(''noise'', PyObj (Vector [20]))]],
      Seq [[(''img'', PyObj (Vector [30]))]],
      Seq [[(''scenario_id'', PyInt 1), (''bbox_label'', PyObj (Vector [40])),
            (''iou_loss'', PyObj (Scalar 50))]]]"

text \<open>
  The sampling window in the words of the specification: the newest \<open>k\<close> entries of a
  bucket (the whole bucket when it holds fewer), with \<open>k\<close> the capacity divided by the
  number of scenario slots, rounded down; and the pool of a field, the windows of the
  scenario ids one after the other, each in temporal order.
\<close>

definition newest :: "nat \<Rightarrow> 'v list \<Rightarrow> 'v list" where
  "newest k xs = drop (length xs - k) xs"

definition pool :: "nat \<Rightarrow> 'v list list \<Rightarrow> int \<Rightarrow> 'v list" where
  "pool k buf n = concat (map (\<lambda>s. newest k (buf ! s)) (py_range n))"

definition window :: "'a replay_buffer \<Rightarrow> nat" where
  "window st = nat (buffer_capacity st div num_scenario st)"

definition p_window :: "'a perception_buffer \<Rightarrow> nat" where
  "p_window st = nat (p_buffer_capacity st div p_num_scenario st)"

text \<open>The indices that a generator draws from a pool of \<open>len\<close> rows.\<close>

definition draws :: "(nat \<Rightarrow> nat) \<Rightarrow> nat \<Rightarrow> nat \<Rightarrow> nat list" where
  "draws rng len batch_size = map (\<lambda>k. rng k mod len) [0..<batch_size]"

text \<open>The rows of a pool at the drawn indices.\<close>

definition rows :: "'v list \<Rightarrow> nat list \<Rightarrow> 'v list" where
  "rows xs idx = map (\<lambda>i. xs ! i) idx"

text \<open>
  \<open>in_window\<close>: the value is among the newest \<open>k\<close> entries of some scenario id's
  bucket. \<open>only_older\<close>: wherever the value occurs in the buckets, it is older than the
  newest \<open>k\<close> entries of its bucket (a sentinel that has left the window).
\<close>

definition in_window :: "nat \<Rightarrow> 'v list list \<Rightarrow> int \<Rightarrow> 'v \<Rightarrow> bool" where
  "in_window k buf n x \<longleftrightarrow> (\<exists>s \<in> set (py_range n). x \<in> set (newest k (buf ! s)))"

definition only_older :: "nat \<Rightarrow> 'v list list \<Rightarrow> int \<Rightarrow> 'v \<Rightarrow> bool" where
  "only_older k buf n v \<longleftrightarrow>
     (\<forall>s \<in> set (py_range n). \<forall>j \<in> set [0..<length (buf ! s)].
        buf ! s ! j = v \<longrightarrow> j < length (buf ! s) - k)"

text \<open>
  The field that \<^verbatim>\<open>sample\<close> returns as the action, and what numpy needs of the
  pools to stack and index them: in each returned field the pooled values have one
  shape, and the observations and next observations are not scalars.
\<close>

definition action_field :: "'a replay_buffer \<Rightarrow> 'a list list" where
  "action_field st =
     (if mode st = ''train_agent'' then buffer_ego_actions st else buffer_scenario_actions st)"

definition stackable :: "'a numpy \<Rightarrow> 'a replay_buffer \<Rightarrow> bool" where
  "stackable np st \<longleftrightarrow>
     same_shape (shape np) (pool (window st) (action_field st) (num_scenario st)) \<and>
     same_shape (shape np) (pool (window st) (buffer_obs st) (num_scenario st)) \<and>
     same_shape (shape np) (pool (window st) (buffer_next_obs st) (num_scenario st)) \<and>
     same_shape (shape np) (pool (window st) (buffer_rewards st) (num_scenario st)) \<and>
     same_shape (shape np) (pool (window st) (buffer_dones st) (num_scenario st)) \<and>
     shape np (hd (pool (window st) (buffer_obs st) (num_scenario st))) \<noteq> [] \<and>
     shape np (hd (pool (window st) (buffer_next_obs st) (num_scenario st))) \<noteq> []"

definition p_stackable :: "'a numpy \<Rightarrow> 'a perception_buffer \<Rightarrow> bool" where
  "p_stackable np st \<longleftrightarrow>
     same_shape (pyval_shape (shape np))
       (pool (p_window st) (buffer_bbox_label st) (p_num_scenario st)) \<and>
     same_shape (pyval_shape (shape np))
       (pool (p_window st) (p_buffer_obs st) (p_num_scenario st)) \<and>
     same_shape (pyval_shape (shape np))
       (pool (p_window st) (buffer_loss st) (p_num_scenario st)) \<and>
     pyval_shape (shape np)
       (hd (pool (p_window st) (buffer_bbox_label st) (p_num_scenario st))) \<noteq> [] \<and>
     pyval_shape (shape np)
       (hd (pool (p_window st) (p_buffer_obs st) (p_num_scenario st))) \<noteq> []"

text \<open>
  Steps of one scenario slot: \<open>store_row st sid x\<close> stores the transition \<open>x\<close> with
  reward \<open>x\<close>, not done, for scenario id \<open>sid\<close>. \<open>three_steps\<close> stores the steps 7, 8,
  9 for scenario id 0 in a buffer of capacity 2 with one scenario slot, so that step 7
  has left the window.
\<close>

definition store_row :: "ndarray replay_buffer \<Rightarrow> int \<Rightarrow> 64 word \<Rightarrow> ndarray replay_buffer" where
  "store_row st sid x = snd (store st (transition x x 0) [id_tag sid])"

definition three_steps :: "string \<Rightarrow> ndarray replay_buffer" where
  "three_steps m = store_row (store_row (store_row (ReplayBuffer 1 m 2) 0 7) 0 8) 0 9"

definition p_store_row ::
  "ndarray perception_buffer \<Rightarrow> int \<Rightarrow> 64 word \<Rightarrow> ndarray perception_buffer" where
  "p_store_row st sid x =
     snd (p_store st
       [Seq [[(''od_result'', PyObj (Vector [x]))]],
        Seq [[(''attack'', PyObj (Vector [1000 + x]))]],
        Seq [[(''img'', PyObj (Vector [2000 + x]))]],
        Seq [[(''scenario_id'', PyInt sid), (''bbox_label'', PyObj (Vector [3000 + x])),
              (''iou_loss'', PyObj (Scalar (4000 + x)))]]])"

definition p_three_steps :: "ndarray perception_buffer" where
  "p_three_steps =
     p_store_row (p_store_row (p_store_row (ReplayBuffer_Perception 1 ''train_agent'' 2) 0 7) 0 8) 0 9"

text \<open>
  A batch whose scenario actions are missing; a buffer of capacity 1 with one scenario
  slot that has stored step 7 and then failed to store that batch; a buffer that has
  failed to store a batch whose done flags are missing; a buffer whose only transition
  has scalar observations; and a buffer whose two observations differ in shape.
\<close>

definition short_batch :: "ndarray field list" where
  "short_batch =
     [Seq [Vector [8]], Seq [], Seq [Vector [2008]], Seq [Vector [3008]],
      Seq [Scalar 1], Seq [Scalar 1]]"

definition skewed :: "ndarray replay_buffer" where
  "skewed =
     snd (store (store_row (ReplayBuffer 1 ''train_agent'' 1) 0 7) short_batch [id_tag 0])"

definition cut_short :: "ndarray replay_buffer" where
  "cut_short =
     snd (store (ReplayBuffer 1 ''train_agent'' 1000)
       [Seq [Vector [8]], Seq [Vector [1008]], Seq [Vector [2008]], Seq [Vector [3008]],
        Seq [Scalar 1], Seq []]
       [id_tag 0])"

definition scalar_obs :: "ndarray replay_buffer" where
  "scalar_obs =
     snd (store (ReplayBuffer 1 ''train_agent'' 1000)
       [Seq [Scalar 1], Seq [Scalar 2], Seq [Scalar 3], Seq [Scalar 4], Seq [Scalar 5],
        Seq [Scalar 0]]
       [id_tag 0])"

definition ragged_obs :: "ndarray replay_buffer" where
  "ragged_obs =
     snd (store (ReplayBuffer 1 ''train_agent'' 1000)
       [Seq [Vector [1], Vector [2]], Seq [Vector [1], Vector [2]],
        Seq [Vector [1], Vector [2, 3]], Seq [Vector [1], Vector [2]],
        Seq [Scalar 1, Scalar 2], Seq [Scalar 0, Scalar 0]]
       [id_tag 0, id_tag 0])"

text \<open>
  A step with an extra key: one transition with reward \<open>r\<close> for scenario id \<open>sid\<close>,
  whose tag carries the extra key \<^verbatim>\<open>'cost'\<close> with value \<open>c\<close>.
\<close>

definition cost_step :: "64 word \<Rightarrow> ndarray field list" where
  "cost_step r =
     [Seq [Scalar 0], Seq [Scalar 0], Seq [Scalar 0], Seq [Scalar 0], Seq [Scalar r],
      Seq [Scalar 0]]"

definition cost_tag :: "int \<Rightarrow> 64 word \<Rightarrow> (string, ndarray pyval) pydict" where
  "cost_tag sid c = [(''scenario_id'', PyInt sid), (''cost'', PyObj (Scalar c))]"

text \<open>
  What \<^verbatim>\<open>store\<close> can do to a buffer besides adding to \<open>buffer_len\<close>: the buckets
  of the six main fields are extended at their ends (each old bucket is a prefix of the
  new one), the extra maps keep their number, and the configuration, the init-side
  fields and the episode returns stay as they are.
\<close>

definition grown :: "'v list list \<Rightarrow> 'v list list \<Rightarrow> bool" where
  "grown old new \<longleftrightarrow> list_all2 prefix old new"

definition store_frame :: "'a replay_buffer \<Rightarrow> 'a replay_buffer \<Rightarrow> bool" where
  "store_frame st st' \<longleftrightarrow>
     mode st' = mode st \<and> buffer_capacity st' = buffer_capacity st \<and>
     num_scenario st' = num_scenario st \<and>
     grown (buffer_ego_actions st) (buffer_ego_actions st') \<and>
     grown (buffer_scenario_actions st) (buffer_scenario_actions st') \<and>
     grown (buffer_obs st) (buffer_obs st') \<and>
     grown (buffer_next_obs st) (buffer_next_obs st') \<and>
     grown (buffer_rewards st) (buffer_rewards st') \<and>
     grown (buffer_dones st) (buffer_dones st') \<and>
     length (buffer_additional_dict st') = length (buffer_additional_dict st) \<and>
     buffer_static_obs st' = buffer_static_obs st \<and>
     buffer_init_action st' = buffer_init_action st \<and>
     buffer_episode_reward st' = buffer_episode_reward st \<and>
     buffer_init_additional_dict st' = buffer_init_additional_dict st \<and>
     init_buffer_len st' = init_buffer_len st"

text \<open>
  Input on which \<^verbatim>\<open>store\<close> runs through: the six fields are sequences none of which
  is shorter than the list of tags, and every tag names a scenario id that is an integer
  between \<open>- num_scenario\<close> and \<open>num_scenario - 1\<close> and carries no other key.
\<close>

definition sid_ok :: "int \<Rightarrow> (string, 'a pyval) pydict \<Rightarrow> bool" where
  "sid_ok n tag \<longleftrightarrow>
     (case map_of tag ''scenario_id'' of
        Some (PyInt sid) \<Rightarrow> - n \<le> sid \<and> sid < n
      | _ \<Rightarrow> False)"

definition id_only :: "(string, 'a pyval) pydict \<Rightarrow> bool" where
  "id_only tag \<longleftrightarrow> list_all (\<lambda>key. key = ''scenario_id'') (dict_keys tag)"

definition long_enough :: "nat \<Rightarrow> 'v field \<Rightarrow> bool" where
  "long_enough n f \<longleftrightarrow> (case f of Seq xs \<Rightarrow> n \<le> length xs | Obj _ \<Rightarrow> False)"

definition store_input_ok ::
  "'a replay_buffer \<Rightarrow> 'a field list \<Rightarrow> (string, 'a pyval) pydict list \<Rightarrow> bool" where
  "store_input_ok st data_list tags \<longleftrightarrow>
     6 \<le> length data_list \<and>
     list_all (long_enough (length tags)) (take 6 data_list) \<and>
     list_all (\<lambda>tag. sid_ok (num_scenario st) tag \<and> id_only tag) tags"

text \<open>
  The demultiplexing effect of \<^verbatim>\<open>store\<close>: the bucket that the scenario id of a tag
  selects among \<open>n\<close> buckets (a negative id counts from the end), the values of a field
  at the positions whose tag selects bucket \<open>s\<close>, in the order of the batch, and the
  buckets of a field after these values have been appended. Only the positions that
  have a tag count.
\<close>

definition bucket_of :: "int \<Rightarrow> (string, 'a pyval) pydict \<Rightarrow> nat" where
  "bucket_of n tag =
     (case map_of tag ''scenario_id'' of
        Some (PyInt sid) \<Rightarrow> if 0 \<le> sid then nat sid else nat (n + sid)
      | _ \<Rightarrow> 0)"

definition tagged ::
  "int \<Rightarrow> (string, 'a pyval) pydict list \<Rightarrow> nat \<Rightarrow> 'v field \<Rightarrow> nat \<Rightarrow> 'v list" where
  "tagged n tags k f s =
     map (\<lambda>i. seq_items f ! i) (filter (\<lambda>i. bucket_of n (tags ! i) = s) [0..<k])"

definition demux ::
  "int \<Rightarrow> (string, 'a pyval) pydict list \<Rightarrow> nat \<Rightarrow> 'v field \<Rightarrow> 'v list list \<Rightarrow> 'v list list" where
  "demux n tags k f buf = map (\<lambda>s. buf ! s @ tagged n tags k f s) [0..<length buf]"

definition stored ::
  "'a replay_buffer \<Rightarrow> 'a field list \<Rightarrow> (string, 'a pyval) pydict list \<Rightarrow> nat
     \<Rightarrow> 'a replay_buffer" where
  "stored st data_list tags k =
     st\<lparr>buffer_len := buffer_len st + int (length (seq_items (data_list ! 4))),
        buffer_ego_actions :=
          demux (num_scenario st) tags k (data_list ! 0) (buffer_ego_actions st),
        buffer_scenario_actions :=
          demux (num_scenario st) tags k (data_list ! 1) (buffer_scenario_actions st),
        buffer_obs := demux (num_scenario st) tags k (data_list ! 2) (buffer_obs st),
        buffer_next_obs := demux (num_scenario st) tags k (data_list ! 3) (buffer_next_obs st),
        buffer_rewards := demux (num_scenario st) tags k (data_list ! 4) (buffer_rewards st),
        buffer_dones := demux (num_scenario st) tags k (data_list ! 5) (buffer_dones st)\<rparr>"

text \<open>
  Tags whose scenario ids are integers, and input on which the perception \<^verbatim>\<open>store\<close>
  runs through.
\<close>

definition int_ids :: "(string, 'a pyval) pydict list \<Rightarrow> bool" where
  "int_ids tags \<longleftrightarrow>
     list_all (\<lambda>tag. case map_of tag ''scenario_id'' of Some (PyInt sid) \<Rightarrow> True | _ \<Rightarrow> False) tags"

definition p_store_input_ok ::
  "'a perception_buffer \<Rightarrow> (string, 'a pyval) pydict field list \<Rightarrow> bool" where
  "p_store_input_ok st data_list \<longleftrightarrow>
     length data_list = 4 \<and> list_all is_seq data_list \<and>
     (let ego_acts = seq_items (data_list ! 0);
          scenario_acts = seq_items (data_list ! 1);
          observations = seq_items (data_list ! 2);
          infos = seq_items (data_list ! 3)
      in \<forall>s_i \<in> set [0..<length infos].
           p_position_ok ego_acts scenario_acts observations infos s_i \<and>
           sid_ok (p_num_scenario st) (infos ! s_i))"

text \<open>
  A field that is a sequence shorter than the list of tags; a batch of two transitions,
  to be stored with a single tag; and a list of five fields.
\<close>

definition too_short :: "nat \<Rightarrow> 'v field \<Rightarrow> bool" where
  "too_short n f \<longleftrightarrow> (case f of Seq xs \<Rightarrow> length xs < n | Obj _ \<Rightarrow> False)"

definition long_batch :: "ndarray field list" where
  "long_batch =
     [Seq [Vector [7], Vector [8]], Seq [Vector [1007], Vector [1008]],
      Seq [Vector [2007], Vector [2008]], Seq [Vector [3007], Vector [3008]],
      Seq [Scalar 1, Scalar 2], Seq [Scalar 0, Scalar 1]]"

definition five_fields :: "ndarray field list" where
  "five_fields =
     [Seq [Vector [7]], Seq [Vector [1007]], Seq [Vector [2007]], Seq [Vector [3007]],
      Seq [Scalar 1]]"

section \<open>Indexing and slicing\<close>

lemma list_index_nat:
  "list_index len (int i) = (if i < len then Inr i else Inl IndexError)"
  by (simp add: list_index_def)

lemma getitem_nat: "getitem xs (int i) = (if i < length xs then Inr (xs ! i) else Inl IndexError)"
  by (simp add: getitem_def list_index_nat)

lemma getitem_last: "xs \<noteq> [] \<Longrightarrow> getitem xs (- 1) = Inr (last xs)"
  by (cases xs rule: rev_cases) (auto simp: getitem_def list_index_def nat_add_distrib)

lemma getitem_last_Nil: "getitem [] i = Inl IndexError"
  by (simp add: getitem_def list_index_def)

lemma getitem_penultimate:
  "length xs > 1 \<Longrightarrow> getitem xs (- 2) = Inr (xs ! (length xs - 2))"
  by (auto simp: getitem_def list_index_def nat_diff_distrib' intro!: arg_cong[where f="nth xs"])

lemma getitem_Inl: "getitem xs i = Inl e \<Longrightarrow> e = IndexError"
  by (auto simp: getitem_def list_index_def split: if_splits)

lemma np_where_Nil_iff: "np_where np flags = [] \<longleftrightarrow> \<not> has_marker np flags"
  by (auto simp: np_where_def has_marker_def filter_empty_conv list_ex_length)

lemma filter_less_upt: "filter (\<lambda>i. i < n) [a..<b] = [a..<min b n]"
proof (induction b)
  case 0
  then show ?case by simp
next
  case (Suc b)
  show ?case
  proof (cases "b < n")
    case True
    then show ?thesis using Suc by (simp add: min_def)
  next
    case False
    then have "min (Suc b) n = n" "min b n = n" by simp_all
    then show ?thesis using Suc False by simp
  qed
qed

lemma map_nth_upt: "b \<le> length xs \<Longrightarrow> map (\<lambda>i. xs ! i) [a..<b] = drop a (take b xs)"
  by (rule nth_equalityI) auto

lemma slice_nat:
  "slice rs (int lo) (int hi + 1) =
     map (\<lambda>i. rs ! i) (filter (\<lambda>i. i < length rs) [lo..<Suc hi])"
proof -
  let ?b = "min (Suc hi) (length rs)"
  have s: "slice rs (int lo) (int hi + 1) = drop (min lo (length rs)) (take ?b rs)"
    by (simp add: slice_def slice_bound_def nat_add_distrib)
  have "drop (min lo (length rs)) (take ?b rs) = drop lo (take ?b rs)"
    by (cases "lo \<le> length rs") (simp_all add: min_def)
  also have "\<dots> = map (\<lambda>i. rs ! i) [lo..<?b]"
    by (rule map_nth_upt[symmetric]) simp
  finally show ?thesis using s by (simp add: filter_less_upt)
qed

lemma episode_span_ok:
  assumes "has_marker np flags"
  shows "episode_span (np_where np flags) =
           Inr (if length (np_where np flags) > 1
                then int (np_where np flags ! (length (np_where np flags) - 2)) else - 1,
                int (last (np_where np flags)))"
proof -
  let ?D = "np_where np flags"
  from assms have ne: "?D \<noteq> []"
    by (simp add: np_where_Nil_iff)
  have l: "getitem (map int ?D) (- 1) = Inr (int (last ?D))"
    using ne by (simp add: getitem_last last_map)
  have p: "getitem (map int ?D) (- 2) = Inr (int (?D ! (length ?D - 2)))" if "length ?D > 1"
    using that by (simp add: getitem_penultimate)
  show ?thesis
    unfolding episode_span_def Let_def
    using l p by simp
qed

lemma episode_span_fail:
  assumes "\<not> has_marker np flags"
  shows "episode_span (np_where np flags) = Inl IndexError"
proof -
  from assms have "np_where np flags = []" by (simp add: np_where_Nil_iff)
  then show ?thesis by (simp add: episode_span_def getitem_last_Nil)
qed

lemma episode_span_sum:
  assumes "episode_span (np_where np flags) = Inr (a, b)"
  shows "np_sum np (slice rs (a + 1) (b + 1)) = episode_sum np rs flags"
proof -
  have d: "has_marker np flags"
    using assms episode_span_fail[of np flags] by auto
  let ?D = "np_where np flags"
  let ?lo = "if length ?D > 1 then ?D ! (length ?D - 2) + 1 else 0"
  from assms episode_span_ok[OF d]
  have "a + 1 = int ?lo" and "b = int (last ?D)" by (auto split: if_splits)
  then show ?thesis
    using slice_nat[of rs ?lo "last ?D"] by (simp add: episode_sum_def Let_def)
qed

lemma finish_loop_ok:
  assumes "\<forall>s \<in> set ss. s < length (buffer_dones st) \<and> s < length (buffer_rewards st)
             \<and> has_marker np (buffer_dones st ! s)"
  shows "finish_loop np st ss =
           (None, st\<lparr>buffer_episode_reward := buffer_episode_reward st @
              map (\<lambda>s. episode_sum np (buffer_rewards st ! s) (buffer_dones st ! s)) ss\<rparr>)"
  using assms
proof (induction ss arbitrary: st)
  case Nil
  then show ?case by simp
next
  case (Cons s ss)
  let ?v = "episode_sum np (buffer_rewards st ! s) (buffer_dones st ! s)"
  let ?st' = "st\<lparr>buffer_episode_reward := buffer_episode_reward st @ [?v]\<rparr>"
  from Cons.prems have s: "s < length (buffer_dones st)" "s < length (buffer_rewards st)"
    "has_marker np (buffer_dones st ! s)" by simp_all
  obtain a b where ab: "episode_span (np_where np (buffer_dones st ! s)) = Inr (a, b)"
    using episode_span_ok[OF s(3)] by blast
  have step: "finish_loop np st (s # ss) = finish_loop np ?st' ss"
    using s ab episode_span_sum[OF ab, of "buffer_rewards st ! s"] by (simp add: getitem_nat)
  have "\<forall>t \<in> set ss. t < length (buffer_dones ?st') \<and> t < length (buffer_rewards ?st')
          \<and> has_marker np (buffer_dones ?st' ! t)"
    using Cons.prems by simp
  from Cons.IH[OF this] step show ?case by simp
qed

lemma finish_loop_stop:
  assumes "s < length (buffer_dones st)" and "\<not> has_marker np (buffer_dones st ! s)"
  shows "finish_loop np st (s # ss) = (Some IndexError, st)"
  using assms by (simp add: getitem_nat episode_span_fail)

lemma finish_loop_append:
  "finish_loop np st (xs @ ys) =
     (case finish_loop np st xs of
        (Some e, st') \<Rightarrow> (Some e, st')
      | (None, st') \<Rightarrow> finish_loop np st' ys)"
proof (induction xs arbitrary: st)
  case Nil
  then show ?case by simp
next
  case (Cons s xs)
  show ?case
    by (simp add: Cons.IH split: sum.splits prod.splits)
qed

lemma py_range_set: "s \<in> set (py_range n) \<longleftrightarrow> s < nat n"
  by (auto simp: py_range_def)

section \<open>finish_one_episode\<close>

lemma finish_one_episode_ok:
  assumes "shaped st" and "all_done np st"
  shows "finish_one_episode np st =
           (None, st\<lparr>buffer_episode_reward := buffer_episode_reward st @
              map (\<lambda>s. episode_sum np (buffer_rewards st ! s) (buffer_dones st ! s))
                (py_range (num_scenario st))\<rparr>)"
proof -
  from assms have "\<forall>s \<in> set (py_range (num_scenario st)).
      s < length (buffer_dones st) \<and> s < length (buffer_rewards st)
      \<and> has_marker np (buffer_dones st ! s)"
    by (simp add: py_range_set shaped_def all_done_def)
  from finish_loop_ok[OF this] show ?thesis
    by (simp add: finish_one_episode_def)
qed

text \<open>
  The first scenario id without a done marker stops the loop: the returns of the
  scenario ids before it have been appended, and nothing else has changed.
\<close>

lemma finish_one_episode_fail:
  assumes "shaped st" and "\<not> all_done np st"
  shows "\<exists>k < nat (num_scenario st).
           \<not> has_marker np (buffer_dones st ! k)
         \<and> (\<forall>s < k. has_marker np (buffer_dones st ! s))
         \<and> finish_one_episode np st =
             (Some IndexError,
              st\<lparr>buffer_episode_reward := buffer_episode_reward st @
                 map (\<lambda>s. episode_sum np (buffer_rewards st ! s) (buffer_dones st ! s)) [0..<k]\<rparr>)"
proof -
  let ?n = "nat (num_scenario st)"
  let ?P = "\<lambda>s. \<not> has_marker np (buffer_dones st ! s)"
  from assms(2) obtain s where s: "s < ?n" "?P s"
    by (auto simp: all_done_def py_range_set)
  define k where "k = (LEAST s. ?P s)"
  have Pk: "?P k" unfolding k_def using s(2) by (rule LeastI)
  have kle: "k \<le> s" unfolding k_def using s(2) by (rule Least_le)
  have before: "\<forall>t < k. has_marker np (buffer_dones st ! t)"
    unfolding k_def using not_less_Least by blast
  from kle s(1) have kn: "k < ?n" by simp
  let ?st' = "st\<lparr>buffer_episode_reward := buffer_episode_reward st @
                 map (\<lambda>s. episode_sum np (buffer_rewards st ! s) (buffer_dones st ! s)) [0..<k]\<rparr>"
  have pre: "finish_loop np st [0..<k] = (None, ?st')"
    using before kn assms(1) by (intro finish_loop_ok) (simp add: shaped_def)
  have split: "py_range (num_scenario st) = [0..<k] @ k # [Suc k..<?n]"
    using kn unfolding py_range_def
    by (metis le_add_diff_inverse less_imp_le_nat upt_add_eq_append upt_conv_Cons zero_le)
  have stop: "finish_loop np ?st' (k # [Suc k..<?n]) = (Some IndexError, ?st')"
    using kn assms(1) Pk by (intro finish_loop_stop) (simp_all add: shaped_def)
  have "finish_one_episode np st = (Some IndexError, ?st')"
    unfolding finish_one_episode_def split finish_loop_append pre using stop by simp
  with Pk before kn show ?thesis by blast
qed

lemma wrap_example:
  "episode_sum int64_numpy [Scalar 4611686018427387904, Scalar 4611686018427387904]
     [Scalar 0, Scalar 1] = Scalar (- 9223372036854775808)"
  by code_simp

lemma episode_example:
  "let s3 = store_one (store_one (store_one (ReplayBuffer 1 ''train_agent'' 1000) 1 0) 2 0) 3 1;
       f3 = finish_one_episode int64_numpy s3;
       s6 = store_one (store_one (store_one (snd f3) 4 0) 5 0) 6 1;
       f6 = finish_one_episode int64_numpy s6
   in fst f3 = None \<and> buffer_episode_reward (snd f3) = [Scalar 6]
    \<and> fst f6 = None \<and> buffer_episode_reward (snd f6) = [Scalar 6, Scalar 15]"
  by code_simp

text \<open>
  Claim C2 promises a new episode return for every scenario id that has a done marker.
  The loop stops at the first scenario id without one: in a buffer of two scenario
  slots where only scenario id 1 has finished its episode, the call raises IndexError
  at scenario id 0 and appends nothing, although scenario id 1 has a done marker.
\<close>

theorem finish_one_episode_skips_marked_id_counterexample:
  "has_marker int64_numpy (buffer_dones late_done ! 1)
   \<and> finish_one_episode int64_numpy late_done = (Some IndexError, late_done)
   \<and> buffer_episode_reward late_done = []"
  by code_simp

text \<open>
  Claim C2, as far as it holds. In a buffer with one bucket per scenario id in which
  every scenario id has a done marker, \<^verbatim>\<open>finish_one_episode\<close> succeeds and appends,
  for each scenario id in turn, \<^verbatim>\<open>np.sum\<close> of the rewards at the indices
  \<open>D[-2]+1 \<dots> D[-1]\<close> (more than one marker) or \<open>0 \<dots> D[-1]\<close> (one marker). When some
  scenario id has no done marker the call raises IndexError, which is what the
  specification calls MissingEpisodeBoundary, at the first such id \<open>k\<close>: the returns of
  the scenario ids before \<open>k\<close> have been appended and those of the ids after \<open>k\<close> have
  not, with or without a marker. With the rewards 1 to 6 and done markers after the
  third and the sixth step, the call after the first marker appends 6 and the call after
  the second marker appends 15. The sum is numpy's: on 64-bit integers it wraps around.
\<close>

theorem finish_one_episode_sums_last_episode:
  assumes "shaped st"
  shows "(all_done np st \<longrightarrow>
            finish_one_episode np st =
              (None, st\<lparr>buffer_episode_reward := buffer_episode_reward st @
                 map (\<lambda>s. episode_sum np (buffer_rewards st ! s) (buffer_dones st ! s))
                   (py_range (num_scenario st))\<rparr>))
       \<and> (\<not> all_done np st \<longrightarrow>
            (\<exists>k < nat (num_scenario st).
               \<not> has_marker np (buffer_dones st ! k)
             \<and> (\<forall>s < k. has_marker np (buffer_dones st ! s))
             \<and> finish_one_episode np st =
                 (Some IndexError,
                  st\<lparr>buffer_episode_reward := buffer_episode_reward st @
                     map (\<lambda>s. episode_sum np (buffer_rewards st ! s) (buffer_dones st ! s))
                       [0..<k]\<rparr>)))
       \<and> (let s3 = store_one (store_one (store_one (ReplayBuffer 1 ''train_agent'' 1000) 1 0) 2 0) 3 1;
               f3 = finish_one_episode int64_numpy s3;
               s6 = store_one (store_one (store_one (snd f3) 4 0) 5 0) 6 1;
               f6 = finish_one_episode int64_numpy s6
           in fst f3 = None \<and> buffer_episode_reward (snd f3) = [Scalar 6]
            \<and> fst f6 = None \<and> buffer_episode_reward (snd f6) = [Scalar 6, Scalar 15])
       \<and> episode_sum int64_numpy [Scalar 4611686018427387904, Scalar 4611686018427387904]
            [Scalar 0, Scalar 1] = Scalar (- 9223372036854775808)"
  using finish_one_episode_ok[OF assms] finish_one_episode_fail[OF assms] episode_example
    wrap_example
  by blast

theorem finish_one_episode_sums_last_episode_witness:
  "shaped two_steps_done \<and> all_done int64_numpy two_steps_done
   \<and> finish_one_episode int64_numpy two_steps_done =
       (None, two_steps_done\<lparr>buffer_episode_reward := [Scalar 3]\<rparr>)
   \<and> shaped half_done \<and> \<not> all_done int64_numpy half_done
   \<and> finish_one_episode int64_numpy half_done =
       (Some IndexError, half_done\<lparr>buffer_episode_reward := [Scalar 4]\<rparr>)"
proof -
  have h: "shaped two_steps_done" by code_simp
  have d: "all_done int64_numpy two_steps_done" by code_simp
  have v: "buffer_episode_reward two_steps_done @
             map (\<lambda>s. episode_sum int64_numpy (buffer_rewards two_steps_done ! s)
                         (buffer_dones two_steps_done ! s))
               (py_range (num_scenario two_steps_done)) = [Scalar 3]"
    by code_simp
  have h0: "shaped half_done" by code_simp
  have d0: "\<not> all_done int64_numpy half_done" by code_simp
  have m0: "has_marker int64_numpy (buffer_dones half_done ! 0)" by code_simp
  have n0: "nat (num_scenario half_done) = 2" by code_simp
  have v0: "buffer_episode_reward half_done @
             map (\<lambda>s. episode_sum int64_numpy (buffer_rewards half_done ! s)
                         (buffer_dones half_done ! s)) [0..<1] = [Scalar 4]"
    by code_simp
  from finish_one_episode_sums_last_episode[OF h, of int64_numpy] d v
  have a: "finish_one_episode int64_numpy two_steps_done =
          (None, two_steps_done\<lparr>buffer_episode_reward := [Scalar 3]\<rparr>)"
    by simp
  from finish_one_episode_sums_last_episode[OF h0, of int64_numpy] d0
  obtain k where k: "k < nat (num_scenario half_done)"
      "\<not> has_marker int64_numpy (buffer_dones half_done ! k)"
      "finish_one_episode int64_numpy half_done =
         (Some IndexError,
          half_done\<lparr>buffer_episode_reward := buffer_episode_reward half_done @
             map (\<lambda>s. episode_sum int64_numpy (buffer_rewards half_done ! s)
                         (buffer_dones half_done ! s)) [0..<k]\<rparr>)"
    by blast
  from k(1) n0 have "k = 0 \<or> k = 1" by auto
  with k(2) m0 have "k = 1" by auto
  with k(3) v0 have b: "finish_one_episode int64_numpy half_done =
       (Some IndexError, half_done\<lparr>buffer_episode_reward := [Scalar 4]\<rparr>)"
    by simp
  show ?thesis by (intro conjI h d a h0 d0 b)
qed

text \<open>
  Claim C10. \<^verbatim>\<open>finish_one_episode\<close> reads the buckets and writes only the list of
  episode returns, so a second call with no store in between finds the same last
  episode: when every scenario id has a done marker, both calls succeed and the list of
  episode returns grows by the same values twice.
\<close>

theorem finish_one_episode_twice_duplicates:
  assumes "shaped st" and "all_done np st"
  shows "let xs = map (\<lambda>s. episode_sum np (buffer_rewards st ! s) (buffer_dones st ! s))
                    (py_range (num_scenario st));
             r1 = finish_one_episode np st;
             r2 = finish_one_episode np (snd r1)
         in fst r1 = None \<and> fst r2 = None
          \<and> buffer_episode_reward (snd r1) = buffer_episode_reward st @ xs
          \<and> buffer_episode_reward (snd r2) = buffer_episode_reward st @ xs @ xs
          \<and> length xs = nat (num_scenario st)"
proof -
  let ?xs = "map (\<lambda>s. episode_sum np (buffer_rewards st ! s) (buffer_dones st ! s))
               (py_range (num_scenario st))"
  let ?st1 = "st\<lparr>buffer_episode_reward := buffer_episode_reward st @ ?xs\<rparr>"
  have r1: "finish_one_episode np st = (None, ?st1)"
    by (rule finish_one_episode_ok[OF assms])
  have "shaped ?st1" and "all_done np ?st1"
    using assms by (simp_all add: shaped_def all_done_def)
  from finish_one_episode_ok[OF this]
  have r2: "finish_one_episode np ?st1 =
              (None, ?st1\<lparr>buffer_episode_reward := (buffer_episode_reward st @ ?xs) @ ?xs\<rparr>)"
    by simp
  show ?thesis unfolding Let_def r1 using r2 by (simp add: py_range_def)
qed

theorem finish_one_episode_twice_duplicates_witness:
  "shaped two_steps_done \<and> all_done int64_numpy two_steps_done
   \<and> buffer_episode_reward (snd (finish_one_episode int64_numpy two_steps_done)) = [Scalar 3]
   \<and> buffer_episode_reward
       (snd (finish_one_episode int64_numpy (snd (finish_one_episode int64_numpy two_steps_done))))
     = [Scalar 3, Scalar 3]"
proof -
  have h: "shaped two_steps_done" by code_simp
  have d: "all_done int64_numpy two_steps_done" by code_simp
  have v: "map (\<lambda>s. episode_sum int64_numpy (buffer_rewards two_steps_done ! s)
                         (buffer_dones two_steps_done ! s))
               (py_range (num_scenario two_steps_done)) = [Scalar 3]"
    by code_simp
  have e: "buffer_episode_reward two_steps_done = []" by code_simp
  from finish_one_episode_twice_duplicates[OF h d] show ?thesis
    unfolding Let_def v e using h d by simp
qed

section \<open>The alignment invariant\<close>

subsection \<open>The generic buffer\<close>

lemma list_index_Inr: "list_index len i = Inr j \<Longrightarrow> j < len"
  by (auto simp: list_index_def split: if_splits)

lemma list_index_Inl: "list_index len i = Inl e \<Longrightarrow> e = IndexError"
  by (auto simp: list_index_def split: if_splits)

lemma read_fields_eq:
  "read_fields data_list =
     (if 6 \<le> length data_list then Inr (fields_of data_list) else Inl IndexError)"
  by (simp add: read_fields_def fields_of_def getitem_def list_index_def)

lemma field_item_ok: "has_item f s_i \<Longrightarrow> field_item f (int s_i) = Inr (seq_items f ! s_i)"
  by (auto simp: has_item_def field_item_def seq_items_def getitem_nat split: field.splits)

lemma append_at_length: "append_at buf sid f s_i = Inr buf' \<Longrightarrow> length buf' = length buf"
  by (auto simp: append_at_def split: sum.splits)

lemma append_at_eq:
  "has_item f s_i \<Longrightarrow>
   append_at buf sid f s_i =
     (case list_index (length buf) sid of
        Inl e \<Rightarrow> Inl e
      | Inr j \<Rightarrow> Inr (buf[j := buf ! j @ [seq_items f ! s_i]]))"
  by (simp add: append_at_def field_item_ok split: sum.splits)

lemma store_fields_bad_sid:
  assumes "list_index (length (buffer_ego_actions st)) sid = Inl e"
  shows "store_fields st dl sid s_i = (Some e, st)"
  using assms by (simp add: store_fields_def append_at_def)

lemma store_fields_ok:
  assumes "shaped st" and "list_index (nat (num_scenario st)) sid = Inr j"
    and "all_items dl s_i"
  shows "store_fields st dl sid s_i =
    (None, st\<lparr>
       buffer_ego_actions := (buffer_ego_actions st)[j := buffer_ego_actions st ! j @ [seq_items (ego_actions dl) ! s_i]],
       buffer_scenario_actions := (buffer_scenario_actions st)[j := buffer_scenario_actions st ! j @ [seq_items (scenario_actions dl) ! s_i]],
       buffer_obs := (buffer_obs st)[j := buffer_obs st ! j @ [seq_items (obs dl) ! s_i]],
       buffer_next_obs := (buffer_next_obs st)[j := buffer_next_obs st ! j @ [seq_items (next_obs dl) ! s_i]],
       buffer_rewards := (buffer_rewards st)[j := buffer_rewards st ! j @ [seq_items (rewards dl) ! s_i]],
       buffer_dones := (buffer_dones st)[j := buffer_dones st ! j @ [seq_items (dones dl) ! s_i]]\<rparr>)"
  using assms by (simp add: store_fields_def append_at_eq shaped_def all_items_def Let_def)

lemma aligned_append:
  assumes "aligned st" and "j < nat (num_scenario st)"
  shows "aligned (st\<lparr>
       buffer_ego_actions := (buffer_ego_actions st)[j := buffer_ego_actions st ! j @ [a]],
       buffer_scenario_actions := (buffer_scenario_actions st)[j := buffer_scenario_actions st ! j @ [b]],
       buffer_obs := (buffer_obs st)[j := buffer_obs st ! j @ [c]],
       buffer_next_obs := (buffer_next_obs st)[j := buffer_next_obs st ! j @ [d]],
       buffer_rewards := (buffer_rewards st)[j := buffer_rewards st ! j @ [e]],
       buffer_dones := (buffer_dones st)[j := buffer_dones st ! j @ [f]]\<rparr>)"
  using assms by (auto simp: aligned_def shaped_def py_range_set nth_list_update)

lemma store_fields_aligned:
  assumes "aligned st" and "all_items dl s_i"
  shows "aligned (snd (store_fields st dl sid s_i))"
proof (cases "list_index (nat (num_scenario st)) sid")
  case (Inl e)
  with assms(1) have "list_index (length (buffer_ego_actions st)) sid = Inl e"
    by (simp add: aligned_def shaped_def)
  from store_fields_bad_sid[OF this] assms(1) show ?thesis by simp
next
  case (Inr j)
  from assms(1) have sh: "shaped st" by (simp add: aligned_def)
  from list_index_Inr[OF Inr] have "j < nat (num_scenario st)" .
  from aligned_append[OF assms(1) this] store_fields_ok[OF sh Inr assms(2)]
  show ?thesis by simp
qed

lemma store_extras_frame:
  "\<exists>d. length d = length (buffer_additional_dict st)
       \<and> snd (store_extras st s_i items) = st\<lparr>buffer_additional_dict := d\<rparr>"
proof (induction items arbitrary: st)
  case Nil
  show ?case by (rule exI[of _ "buffer_additional_dict st"]) simp
next
  case (Cons kv items)
  obtain key v where kv: "kv = (key, v)" by (cases kv)
  show ?case
  proof (cases "key = ''scenario_id''")
    case True
    with kv Cons.IH[of st] show ?thesis by simp
  next
    case False
    show ?thesis
    proof (cases "getitem (buffer_additional_dict st) (int s_i)")
      case (Inl e)
      with kv False show ?thesis
        by (intro exI[of _ "buffer_additional_dict st"]) simp
    next
      case (Inr d)
      let ?st' = "st\<lparr>buffer_additional_dict :=
                     (buffer_additional_dict st)[s_i := dict_append d key v]\<rparr>"
      from Cons.IH[of ?st'] obtain d' where
        "length d' = length (buffer_additional_dict ?st')"
        "snd (store_extras ?st' s_i items) = ?st'\<lparr>buffer_additional_dict := d'\<rparr>" by blast
      with kv False Inr show ?thesis by (intro exI[of _ d']) simp
    qed
  qed
qed

lemma aligned_additional_dict:
  "length d = length (buffer_additional_dict st) \<Longrightarrow>
     aligned (st\<lparr>buffer_additional_dict := d\<rparr>) = aligned st"
  by (simp add: aligned_def shaped_def)

lemma store_extras_aligned: "aligned st \<Longrightarrow> aligned (snd (store_extras st s_i items))"
  using store_extras_frame[of st s_i items] by (auto simp: aligned_additional_dict)

lemma store_step_aligned:
  assumes "aligned st" and "all_items dl s_i"
  shows "aligned (snd (store_step st dl tags s_i))"
proof -
  have "aligned (snd (store_fields st dl sid s_i))" for sid
    by (rule store_fields_aligned[OF assms])
  then have "aligned st'" if "store_fields st dl sid s_i = (r, st')" for sid r st'
    using that by (metis snd_conv)
  then show ?thesis
    using assms(1)
    by (auto simp: store_step_def store_extras_aligned
        split: sum.splits pyval.splits prod.splits option.splits)
qed

lemma store_loop_aligned:
  assumes "aligned st" and "\<forall>s_i \<in> set ss. all_items dl s_i"
  shows "aligned (snd (store_loop st dl tags ss))"
  using assms
proof (induction ss arbitrary: st)
  case Nil
  then show ?case by simp
next
  case (Cons s_i ss)
  from Cons.prems have a: "aligned (snd (store_step st dl tags s_i))"
    by (intro store_step_aligned) simp_all
  show ?case
  proof (cases "store_step st dl tags s_i")
    case (Pair r st')
    with a have st': "aligned st'" by simp
    show ?thesis
    proof (cases r)
      case None
      with Pair Cons.IH[OF st'] Cons.prems(2) show ?thesis by simp
    next
      case (Some e)
      with Pair st' show ?thesis by simp
    qed
  qed
qed

lemma aligned_input_items:
  assumes "aligned_input data_list tags" and "s_i < length tags"
  shows "all_items (fields_of data_list) s_i"
proof -
  from assms(1) have len: "6 \<le> length data_list"
    and all: "\<forall>k < 6. field_len (data_list ! k) = Inr (length tags)"
    by (auto simp: aligned_input_def list_all_length)
  have "has_item (data_list ! k) s_i" if "k < 6" for k
    using all that assms(2)
    by (auto simp: has_item_def field_len_def split: field.splits)
  then show ?thesis by (simp add: all_items_def fields_of_def)
qed

lemma aligned_input_rewards:
  "aligned_input data_list tags \<Longrightarrow> field_len (rewards (fields_of data_list)) = Inr (length tags)"
  by (auto simp: aligned_input_def list_all_length fields_of_def)

lemma store_aligned:
  assumes "aligned st" and "aligned_input data_list tags"
  shows "aligned (snd (store st data_list tags))"
proof -
  from assms(2) have r: "read_fields data_list = Inr (fields_of data_list)"
    by (simp add: read_fields_eq aligned_input_def)
  have "aligned (st\<lparr>buffer_len := buffer_len st + int (length tags)\<rparr>)"
    using assms(1) by (simp add: aligned_def shaped_def)
  moreover have "\<forall>s_i \<in> set (py_range (int (length tags))). all_items (fields_of data_list) s_i"
    using aligned_input_items[OF assms(2)] by (simp add: py_range_set)
  ultimately have "aligned (snd (store_loop
      (st\<lparr>buffer_len := buffer_len st + int (length tags)\<rparr>) (fields_of data_list) tags
      (py_range (int (length tags)))))"
    by (rule store_loop_aligned)
  then show ?thesis
    by (simp add: store_def r aligned_input_rewards[OF assms(2)])
qed

lemma finish_loop_frame:
  "\<exists>xs. snd (finish_loop np st ss) = st\<lparr>buffer_episode_reward := buffer_episode_reward st @ xs\<rparr>"
proof (induction ss arbitrary: st)
  case Nil
  show ?case by (rule exI[of _ "[]"]) simp
next
  case (Cons s ss)
  show ?case
  proof (cases "finish_loop np st (s # ss) = finish_loop np st [] \<or> fst (finish_loop np st (s # ss)) \<noteq> None \<and> snd (finish_loop np st (s # ss)) = st")
    case True
    then show ?thesis by (intro exI[of _ "[]"]) auto
  next
    case False
    then obtain v where step: "finish_loop np st (s # ss) =
        finish_loop np (st\<lparr>buffer_episode_reward := buffer_episode_reward st @ [v]\<rparr>) ss"
      by (auto split: sum.splits prod.splits)
    from Cons.IH[of "st\<lparr>buffer_episode_reward := buffer_episode_reward st @ [v]\<rparr>"]
    obtain xs where "snd (finish_loop np (st\<lparr>buffer_episode_reward := buffer_episode_reward st @ [v]\<rparr>) ss)
        = st\<lparr>buffer_episode_reward := (buffer_episode_reward st @ [v]) @ xs\<rparr>"
      by auto
    with step show ?thesis by (intro exI[of _ "v # xs"]) simp
  qed
qed

lemma finish_one_episode_aligned:
  "aligned st \<Longrightarrow> aligned (snd (finish_one_episode np st))"
  using finish_loop_frame[of np st "py_range (num_scenario st)"]
  by (auto simp: finish_one_episode_def aligned_def shaped_def)

lemma store_init_aligned: "aligned st \<Longrightarrow> aligned (snd (store_init st data_list ad))"
  by (auto simp: store_init_def aligned_def shaped_def Let_def split: option.splits sum.splits)

lemma reset_buffer_aligned: "aligned (reset_buffer st)"
  by (simp add: reset_buffer_def aligned_def shaped_def py_range_def)

lemma reset_init_buffer_aligned: "aligned st \<Longrightarrow> aligned (reset_init_buffer st)"
  by (simp add: reset_init_buffer_def aligned_def shaped_def)

lemma ReplayBuffer_aligned: "aligned (ReplayBuffer n m cap)"
  unfolding ReplayBuffer_def by (intro reset_init_buffer_aligned reset_buffer_aligned)

lemma reachable_aligned: "reachable st \<Longrightarrow> aligned st"
proof (induction rule: reachable.induct)
  case (reachable_new n m cap)
  show ?case by (rule ReplayBuffer_aligned)
next
  case (reachable_store st data_list tags)
  then show ?case by (intro store_aligned)
next
  case (reachable_store_init st data_list ad)
  then show ?case by (intro store_init_aligned)
next
  case (reachable_finish st np)
  then show ?case by (intro finish_one_episode_aligned)
next
  case (reachable_reset st)
  show ?case by (rule reset_buffer_aligned)
next
  case (reachable_reset_init st)
  then show ?case by (intro reset_init_buffer_aligned)
qed

subsection \<open>The perception buffer\<close>

lemma dict_get_has_key: "has_key k d \<Longrightarrow> \<exists>v. dict_get d k = Inr v"
  by (auto simp: has_key_def dict_get_def dict_keys_def map_of_eq_None_iff split: option.splits)

lemma append_key_at_bad_sid:
  "list_index (length buf) sid = Inl e \<Longrightarrow> append_key_at buf sid f s_i key = Inl e"
  by (simp add: append_key_at_def)

lemma append_key_at_ok:
  assumes "list_index (length buf) sid = Inr j" and "s_i < length xs"
    and "has_key key (xs ! s_i)"
  shows "\<exists>v. append_key_at buf sid (Seq xs) s_i key = Inr (buf[j := buf ! j @ [v]])"
  using assms dict_get_has_key[OF assms(3)]
  by (auto simp: append_key_at_def field_item_def getitem_nat)

lemma p_store_fields_bad_sid:
  assumes "list_index (length (buffer_predictions st)) sid = Inl e"
  shows "p_store_fields st ea sa ob infos sid s_i = (Some e, st)"
  using assms by (simp add: p_store_fields_def append_key_at_bad_sid)

lemma p_store_fields_ok:
  assumes "p_shaped st" and "list_index (nat (p_num_scenario st)) sid = Inr j"
    and "s_i < length ea" "has_key ''od_result'' (ea ! s_i)"
    and "s_i < length sa" "has_key ''attack'' (sa ! s_i)"
    and "s_i < length ob" "has_key ''img'' (ob ! s_i)"
    and "s_i < length infos" "has_key ''bbox_label'' (infos ! s_i)"
      "has_key ''iou_loss'' (infos ! s_i)"
  shows "\<exists>a b c d e. p_store_fields st (Seq ea) (Seq sa) (Seq ob) (Seq infos) sid s_i =
    (None, st\<lparr>
       buffer_predictions := (buffer_predictions st)[j := buffer_predictions st ! j @ [a]],
       p_buffer_scenario_actions := (p_buffer_scenario_actions st)[j := p_buffer_scenario_actions st ! j @ [b]],
       p_buffer_obs := (p_buffer_obs st)[j := p_buffer_obs st ! j @ [c]],
       buffer_bbox_label := (buffer_bbox_label st)[j := buffer_bbox_label st ! j @ [d]],
       buffer_loss := (buffer_loss st)[j := buffer_loss st ! j @ [e]]\<rparr>)"
proof -
  from assms(1,2) have j:
    "list_index (length (buffer_predictions st)) sid = Inr j"
    "list_index (length (p_buffer_scenario_actions st)) sid = Inr j"
    "list_index (length (p_buffer_obs st)) sid = Inr j"
    "list_index (length (buffer_bbox_label st)) sid = Inr j"
    "list_index (length (buffer_loss st)) sid = Inr j"
    by (simp_all add: p_shaped_def)
  from append_key_at_ok[OF j(1) assms(3,4)] obtain a where
    a: "append_key_at (buffer_predictions st) sid (Seq ea) s_i ''od_result'' =
          Inr ((buffer_predictions st)[j := buffer_predictions st ! j @ [a]])" by blast
  from append_key_at_ok[OF j(2) assms(5,6)] obtain b where
    b: "append_key_at (p_buffer_scenario_actions st) sid (Seq sa) s_i ''attack'' =
          Inr ((p_buffer_scenario_actions st)[j := p_buffer_scenario_actions st ! j @ [b]])" by blast
  from append_key_at_ok[OF j(3) assms(7,8)] obtain c where
    c: "append_key_at (p_buffer_obs st) sid (Seq ob) s_i ''img'' =
          Inr ((p_buffer_obs st)[j := p_buffer_obs st ! j @ [c]])" by blast
  from append_key_at_ok[OF j(4) assms(9,10)] obtain d where
    d: "append_key_at (buffer_bbox_label st) sid (Seq infos) s_i ''bbox_label'' =
          Inr ((buffer_bbox_label st)[j := buffer_bbox_label st ! j @ [d]])" by blast
  from append_key_at_ok[OF j(5) assms(9,11)] obtain e where
    e: "append_key_at (buffer_loss st) sid (Seq infos) s_i ''iou_loss'' =
          Inr ((buffer_loss st)[j := buffer_loss st ! j @ [e]])" by blast
  show ?thesis
    by (intro exI[of _ a] exI[of _ b] exI[of _ c] exI[of _ d] exI[of _ e])
       (simp add: p_store_fields_def a b c d e)
qed

lemma p_aligned_append:
  assumes "p_aligned st" and "j < nat (p_num_scenario st)"
  shows "p_aligned (st\<lparr>
       buffer_predictions := (buffer_predictions st)[j := buffer_predictions st ! j @ [a]],
       p_buffer_scenario_actions := (p_buffer_scenario_actions st)[j := p_buffer_scenario_actions st ! j @ [b]],
       p_buffer_obs := (p_buffer_obs st)[j := p_buffer_obs st ! j @ [c]],
       buffer_bbox_label := (buffer_bbox_label st)[j := buffer_bbox_label st ! j @ [d]],
       buffer_loss := (buffer_loss st)[j := buffer_loss st ! j @ [e]]\<rparr>)"
  using assms by (auto simp: p_aligned_def p_shaped_def py_range_set nth_list_update)

lemma p_store_fields_aligned:
  assumes "p_aligned st"
    and "s_i < length ea" "has_key ''od_result'' (ea ! s_i)"
    and "s_i < length sa" "has_key ''attack'' (sa ! s_i)"
    and "s_i < length ob" "has_key ''img'' (ob ! s_i)"
    and "s_i < length infos" "has_key ''bbox_label'' (infos ! s_i)"
      "has_key ''iou_loss'' (infos ! s_i)"
  shows "p_aligned (snd (p_store_fields st (Seq ea) (Seq sa) (Seq ob) (Seq infos) sid s_i))"
proof (cases "list_index (nat (p_num_scenario st)) sid")
  case (Inl e)
  with assms(1) have "list_index (length (buffer_predictions st)) sid = Inl e"
    by (simp add: p_aligned_def p_shaped_def)
  from p_store_fields_bad_sid[OF this] assms(1) show ?thesis by simp
next
  case (Inr j)
  from assms(1) have sh: "p_shaped st" by (simp add: p_aligned_def)
  from list_index_Inr[OF Inr] have j: "j < nat (p_num_scenario st)" .
  from p_store_fields_ok[OF sh Inr assms(2-)] obtain a b c d e where
    "p_store_fields st (Seq ea) (Seq sa) (Seq ob) (Seq infos) sid s_i =
    (None, st\<lparr>
       buffer_predictions := (buffer_predictions st)[j := buffer_predictions st ! j @ [a]],
       p_buffer_scenario_actions := (p_buffer_scenario_actions st)[j := p_buffer_scenario_actions st ! j @ [b]],
       p_buffer_obs := (p_buffer_obs st)[j := p_buffer_obs st ! j @ [c]],
       buffer_bbox_label := (buffer_bbox_label st)[j := buffer_bbox_label st ! j @ [d]],
       buffer_loss := (buffer_loss st)[j := buffer_loss st ! j @ [e]]\<rparr>)" by blast
  with p_aligned_append[OF assms(1) j] show ?thesis by simp
qed

lemma p_store_step_aligned:
  assumes "p_aligned st" and "p_position_ok ea sa ob infos s_i"
  shows "p_aligned (snd (p_store_step st (Seq ea) (Seq sa) (Seq ob) (Seq infos) s_i))"
proof -
  have "p_aligned (snd (p_store_fields st (Seq ea) (Seq sa) (Seq ob) (Seq infos) sid s_i))" for sid
    using assms unfolding p_position_ok_def by (intro p_store_fields_aligned) simp_all
  then show ?thesis
    using assms(1) by (auto simp: p_store_step_def split: sum.splits pyval.splits)
qed

lemma p_store_loop_aligned:
  assumes "p_aligned st" and "\<forall>s_i \<in> set ss. p_position_ok ea sa ob infos s_i"
  shows "p_aligned (snd (p_store_loop st (Seq ea) (Seq sa) (Seq ob) (Seq infos) ss))"
  using assms
proof (induction ss arbitrary: st)
  case Nil
  then show ?case by simp
next
  case (Cons s_i ss)
  from Cons.prems have a: "p_aligned (snd (p_store_step st (Seq ea) (Seq sa) (Seq ob) (Seq infos) s_i))"
    by (intro p_store_step_aligned) simp_all
  show ?case
  proof (cases "p_store_step st (Seq ea) (Seq sa) (Seq ob) (Seq infos) s_i")
    case (Pair r st')
    with a have st': "p_aligned st'" by simp
    show ?thesis
    proof (cases r)
      case None
      with Pair Cons.IH[OF st'] Cons.prems(2) show ?thesis by simp
    next
      case (Some e)
      with Pair st' show ?thesis by simp
    qed
  qed
qed

lemma four_seqs:
  assumes "length data_list = 4" and "list_all is_seq data_list"
  obtains ea sa ob infos where "data_list = [Seq ea, Seq sa, Seq ob, Seq infos]"
proof -
  from assms(1) obtain a b c d where dl: "data_list = [a, b, c, d]"
    by (auto simp: length_Suc_conv numeral_eq_Suc)
  from assms(2) have "is_seq a" "is_seq b" "is_seq c" "is_seq d"
    unfolding dl by simp_all
  then obtain ea sa ob infos where "a = Seq ea" "b = Seq sa" "c = Seq ob" "d = Seq infos"
    by (auto simp: is_seq_def split: field.splits)
  with dl that show thesis by simp
qed

lemma p_aligned_input_cases:
  assumes "p_aligned_input data_list"
  obtains ea sa ob infos where "data_list = [Seq ea, Seq sa, Seq ob, Seq infos]"
proof -
  from assms have "length data_list = 4" and "list_all is_seq data_list"
    by (simp_all add: p_aligned_input_def)
  then show thesis using that by (rule four_seqs)
qed

lemma p_store_aligned:
  assumes "p_aligned st" and "p_aligned_input data_list"
  shows "p_aligned (snd (p_store st data_list))"
proof -
  from assms(2) obtain ea sa ob infos where dl: "data_list = [Seq ea, Seq sa, Seq ob, Seq infos]"
    by (rule p_aligned_input_cases)
  have "p_aligned (st\<lparr>p_buffer_len := p_buffer_len st + int (length infos)\<rparr>)"
    using assms(1) by (simp add: p_aligned_def p_shaped_def)
  moreover have "\<forall>s_i \<in> set (py_range (int (length infos))). p_position_ok ea sa ob infos s_i"
    using assms(2) unfolding dl
    by (simp add: p_aligned_input_def py_range_set p_position_ok_def list_all_length
        seq_items_def Let_def)
  ultimately have "p_aligned (snd (p_store_loop
      (st\<lparr>p_buffer_len := p_buffer_len st + int (length infos)\<rparr>)
      (Seq ea) (Seq sa) (Seq ob) (Seq infos) (py_range (int (length infos)))))"
    by (rule p_store_loop_aligned)
  then show ?thesis by (simp add: p_store_def dl field_len_def)
qed

lemma ReplayBuffer_Perception_aligned: "p_aligned (ReplayBuffer_Perception n m cap)"
  by (simp add: ReplayBuffer_Perception_def p_aligned_def p_shaped_def py_range_def)

lemma p_reachable_aligned: "p_reachable st \<Longrightarrow> p_aligned st"
proof (induction rule: p_reachable.induct)
  case (p_reachable_new n m cap)
  show ?case by (rule ReplayBuffer_Perception_aligned)
next
  case (p_reachable_store st data_list)
  then show ?case by (intro p_store_aligned)
next
  case (p_reachable_store_init st x y)
  then show ?case by (simp add: p_store_init_def)
next
  case (p_reachable_finish st)
  then show ?case by (simp add: p_finish_one_episode_def)
qed

subsection \<open>The invariant in every reachable state\<close>

text \<open>
  Claim C1 does not hold of the perception buffer as stated. Its \<^verbatim>\<open>store\<close> reads one
  key from a dictionary before each of its five appends, and a missing key raises
  KeyError after the appends that came before: with four fields of length one, scenario
  id 1 and a scenario action without the key \<^verbatim>\<open>'attack'\<close>, the prediction is appended
  and nothing else, so that scenario id 1 holds one prediction and no loss.
\<close>

theorem perception_store_breaks_alignment_counterexample:
  "p_store (ReplayBuffer_Perception 2 ''train_agent'' 1000) no_attack =
     (Some KeyError,
      (ReplayBuffer_Perception 2 ''train_agent'' 1000)
        \<lparr>p_buffer_len := 1, buffer_predictions := [[], [PyObj (Vector [10])]]\<rparr>)
   \<and> map length (buffer_predictions
         (snd (p_store (ReplayBuffer_Perception 2 ''train_agent'' 1000) no_attack))) = [0, 1]
   \<and> map length (buffer_loss
         (snd (p_store (ReplayBuffer_Perception 2 ''train_agent'' 1000) no_attack))) = [0, 0]"
  by code_simp

text \<open>
  Claim C1, as far as it holds. In every state that a buffer can reach through its
  operations, with every \<^verbatim>\<open>store\<close> given aligned input, each scenario id has the same
  number of values in all its fields: the six fields ego_action, scenario_action, obs,
  next_obs, reward and done of the generic buffer, and the five fields of the perception
  buffer (prediction, attack, image, label, loss). Aligned input of the generic
  \<^verbatim>\<open>store\<close> is six sequences that have the length of the list of tags; aligned input
  of the perception \<^verbatim>\<open>store\<close> is four sequences of equal length in which every
  dictionary carries the keys that are read from it. Each operation that writes to the
  buffer keeps the invariant, whatever the scenario ids in the tags are and whether or
  not the call fails.
\<close>

theorem bucket_lengths_stay_aligned:
  "(reachable st \<longrightarrow>
      (\<forall>s < nat (num_scenario st).
         length (buffer_ego_actions st ! s) = length (buffer_rewards st ! s) \<and>
         length (buffer_scenario_actions st ! s) = length (buffer_rewards st ! s) \<and>
         length (buffer_obs st ! s) = length (buffer_rewards st ! s) \<and>
         length (buffer_next_obs st ! s) = length (buffer_rewards st ! s) \<and>
         length (buffer_dones st ! s) = length (buffer_rewards st ! s)))
   \<and> (aligned st \<and> aligned_input data_list tags \<longrightarrow> aligned (snd (store st data_list tags)))
   \<and> (aligned st \<longrightarrow> aligned (snd (store_init st init_list ad)))
   \<and> (aligned st \<longrightarrow> aligned (snd (finish_one_episode np st)))
   \<and> (p_reachable pst \<longrightarrow>
      (\<forall>s < nat (p_num_scenario pst).
         length (buffer_bbox_label pst ! s) = length (buffer_loss pst ! s) \<and>
         length (buffer_predictions pst ! s) = length (buffer_loss pst ! s) \<and>
         length (p_buffer_scenario_actions pst ! s) = length (buffer_loss pst ! s) \<and>
         length (p_buffer_obs pst ! s) = length (buffer_loss pst ! s)))
   \<and> (p_aligned pst \<and> p_aligned_input p_data_list \<longrightarrow> p_aligned (snd (p_store pst p_data_list)))"
proof (intro conjI impI)
  assume "reachable st"
  then have "aligned st" by (rule reachable_aligned)
  then show "\<forall>s < nat (num_scenario st).
         length (buffer_ego_actions st ! s) = length (buffer_rewards st ! s) \<and>
         length (buffer_scenario_actions st ! s) = length (buffer_rewards st ! s) \<and>
         length (buffer_obs st ! s) = length (buffer_rewards st ! s) \<and>
         length (buffer_next_obs st ! s) = length (buffer_rewards st ! s) \<and>
         length (buffer_dones st ! s) = length (buffer_rewards st ! s)"
    by (simp add: aligned_def py_range_set)
next
  assume "aligned st \<and> aligned_input data_list tags"
  then show "aligned (snd (store st data_list tags))" by (intro store_aligned) simp_all
next
  assume "aligned st"
  then show "aligned (snd (store_init st init_list ad))" by (rule store_init_aligned)
next
  assume "aligned st"
  then show "aligned (snd (finish_one_episode np st))" by (rule finish_one_episode_aligned)
next
  assume "p_reachable pst"
  then have "p_aligned pst" by (rule p_reachable_aligned)
  then show "\<forall>s < nat (p_num_scenario pst).
         length (buffer_bbox_label pst ! s) = length (buffer_loss pst ! s) \<and>
         length (buffer_predictions pst ! s) = length (buffer_loss pst ! s) \<and>
         length (p_buffer_scenario_actions pst ! s) = length (buffer_loss pst ! s) \<and>
         length (p_buffer_obs pst ! s) = length (buffer_loss pst ! s)"
    by (simp add: p_aligned_def py_range_set)
next
  assume "p_aligned pst \<and> p_aligned_input p_data_list"
  then show "p_aligned (snd (p_store pst p_data_list))" by (intro p_store_aligned) simp_all
qed

theorem bucket_lengths_stay_aligned_witness:
  "reachable demux_state \<and> p_reachable p_demux_state
   \<and> map length (buffer_rewards demux_state) = [1, 2]
   \<and> map length (buffer_ego_actions demux_state) = [1, 2]
   \<and> map length (buffer_scenario_actions demux_state) = [1, 2]
   \<and> map length (buffer_obs demux_state) = [1, 2]
   \<and> map length (buffer_next_obs demux_state) = [1, 2]
   \<and> map length (buffer_dones demux_state) = [1, 2]
   \<and> map length (buffer_loss p_demux_state) = [0, 2]
   \<and> map length (buffer_bbox_label p_demux_state) = [0, 2]
   \<and> map length (buffer_predictions p_demux_state) = [0, 2]
   \<and> map length (p_buffer_scenario_actions p_demux_state) = [0, 2]
   \<and> map length (p_buffer_obs p_demux_state) = [0, 2]"
proof -
  have i: "aligned_input demux_batch demux_tags" by code_simp
  have r: "reachable demux_state"
    unfolding demux_state_def by (intro reachable_store reachable_new i)
  have pi: "p_aligned_input p_demux_data" by code_simp
  have pr: "p_reachable p_demux_state"
    unfolding p_demux_state_def by (intro p_reachable_store p_reachable_new pi)
  have n: "nat (num_scenario demux_state) = 2" "nat (p_num_scenario p_demux_state) = 2"
    by code_simp+
  have l: "length (buffer_rewards demux_state) = 2" "length (buffer_ego_actions demux_state) = 2"
    "length (buffer_scenario_actions demux_state) = 2" "length (buffer_obs demux_state) = 2"
    "length (buffer_next_obs demux_state) = 2" "length (buffer_dones demux_state) = 2"
    "length (buffer_loss p_demux_state) = 2" "length (buffer_bbox_label p_demux_state) = 2"
    "length (buffer_predictions p_demux_state) = 2"
    "length (p_buffer_scenario_actions p_demux_state) = 2"
    "length (p_buffer_obs p_demux_state) = 2"
    by code_simp+
  have v: "map length (buffer_rewards demux_state) = [1, 2]"
    "map length (buffer_loss p_demux_state) = [0, 2]"
    by code_simp+
  from bucket_lengths_stay_aligned[where st = demux_state and pst = p_demux_state] r pr
  have g: "\<forall>s < 2.
         length (buffer_ego_actions demux_state ! s) = length (buffer_rewards demux_state ! s) \<and>
         length (buffer_scenario_actions demux_state ! s) = length (buffer_rewards demux_state ! s) \<and>
         length (buffer_obs demux_state ! s) = length (buffer_rewards demux_state ! s) \<and>
         length (buffer_next_obs demux_state ! s) = length (buffer_rewards demux_state ! s) \<and>
         length (buffer_dones demux_state ! s) = length (buffer_rewards demux_state ! s)"
    and pg: "\<forall>s < 2.
         length (buffer_bbox_label p_demux_state ! s) = length (buffer_loss p_demux_state ! s) \<and>
         length (buffer_predictions p_demux_state ! s) = length (buffer_loss p_demux_state ! s) \<and>
         length (p_buffer_scenario_actions p_demux_state ! s) = length (buffer_loss p_demux_state ! s) \<and>
         length (p_buffer_obs p_demux_state ! s) = length (buffer_loss p_demux_state ! s)"
    unfolding n by blast+
  have eq: "map length xs = map length ys"
    if "length xs = 2" "length ys = 2" "\<forall>s < (2::nat). length (xs ! s) = length (ys ! s)"
    for xs :: "'x list list" and ys :: "'y list list"
    using that by (intro nth_equalityI) simp_all
  show ?thesis
    using r pr v eq[OF l(2) l(1)] eq[OF l(3) l(1)] eq[OF l(4) l(1)] eq[OF l(5) l(1)]
      eq[OF l(6) l(1)] eq[OF l(8) l(7)] eq[OF l(9) l(7)] eq[OF l(10) l(7)] eq[OF l(11) l(7)]
      g pg
    by simp
qed

section \<open>Sampling from the windowed pool\<close>

lemma slice_from_newest:
  assumes "length xs = len"
  shows "slice_from xs (max 0 (int len - w)) = newest (nat w) xs"
proof (cases "w \<le> 0")
  case True
  then have "slice_bound (length xs) (max 0 (int len - w)) = length xs"
    using assms by (simp add: slice_bound_def max_def)
  with True show ?thesis by (simp add: slice_from_def newest_def)
next
  case False
  then have "slice_bound (length xs) (max 0 (int len - w)) = length xs - nat w"
    using assms by (auto simp: slice_bound_def max_def min_def nat_diff_distrib)
  then show ?thesis by (simp add: slice_from_def newest_def)
qed

lemma randint_pool:
  "randint rng 0 (int len) batch_size =
     (if batch_size = 0 then Inr [] else if len = 0 then Inl ValueError
      else Inr (draws rng len batch_size))"
  by (simp add: randint_def draws_def)

lemma randint_zero:
  "randint rng 0 0 batch_size = (if batch_size = 0 then Inr [] else Inl ValueError)"
  by (simp add: randint_def)

lemma draws_in_range: "0 < len \<Longrightarrow> i \<in> set (draws rng len batch_size) \<Longrightarrow> i < len"
  by (auto simp: draws_def)

lemma length_draws: "length (draws rng len batch_size) = batch_size"
  by (simp add: draws_def)

lemma draws_any:
  assumes "\<forall>i \<in> set idxs. i < len"
  shows "draws (\<lambda>k. idxs ! k) len (length idxs) = idxs"
  using assms by (auto simp: draws_def intro!: nth_equalityI)

lemma take_rows_ok:
  "\<forall>i \<in> set idx. i < length xs \<Longrightarrow> take_rows xs idx = Inr (rows xs idx)"
  by (simp add: take_rows_def rows_def)

lemma length_rows: "length (rows xs idx) = length idx"
  by (simp add: rows_def)

lemma stack_rows_Nil: "stack_rows sh [] idx = Inl ValueError"
  by (simp add: stack_rows_def np_stack_def)

lemma stack_rows_all_Nil: "stack_rows_all sh [] idx = Inl ValueError"
  by (simp add: stack_rows_all_def np_stack_def)

lemma stack_rows_draws:
  assumes "length xs = len" and "0 < len"
  shows "stack_rows sh xs (draws rng len batch_size) =
           (if same_shape sh xs then Inr (rows xs (draws rng len batch_size))
            else Inl ValueError)"
  using assms draws_in_range[of len _ rng batch_size]
  by (auto simp: stack_rows_def np_stack_def take_rows_def rows_def)

lemma stack_rows_all_draws:
  assumes "length xs = len" and "0 < len"
  shows "stack_rows_all sh xs (draws rng len batch_size) =
           (if \<not> same_shape sh xs then Inl ValueError
            else if sh (hd xs) = [] then Inl IndexError
            else Inr (rows xs (draws rng len batch_size)))"
  using assms draws_in_range[of len _ rng batch_size]
  by (auto simp: stack_rows_all_def np_stack_def take_rows_def rows_def)

lemma sample_loop_eq:
  assumes "\<forall>s \<in> set ss. s < length (buffer_rewards st) \<and> s < length (buffer_ego_actions st)
      \<and> s < length (buffer_scenario_actions st) \<and> s < length (buffer_obs st)
      \<and> s < length (buffer_next_obs st) \<and> s < length (buffer_dones st)
      \<and> length (buffer_ego_actions st ! s) = length (buffer_rewards st ! s)
      \<and> length (buffer_scenario_actions st ! s) = length (buffer_rewards st ! s)
      \<and> length (buffer_obs st ! s) = length (buffer_rewards st ! s)
      \<and> length (buffer_next_obs st ! s) = length (buffer_rewards st ! s)
      \<and> length (buffer_dones st ! s) = length (buffer_rewards st ! s)"
  shows "sample_loop st w p ss = Inr
    \<lparr>prepared_ego_actions = prepared_ego_actions p
        @ concat (map (\<lambda>s. newest (nat w) (buffer_ego_actions st ! s)) ss),
     prepared_scenario_actions = prepared_scenario_actions p
        @ concat (map (\<lambda>s. newest (nat w) (buffer_scenario_actions st ! s)) ss),
     prepared_obs = prepared_obs p @ concat (map (\<lambda>s. newest (nat w) (buffer_obs st ! s)) ss),
     prepared_next_obs = prepared_next_obs p
        @ concat (map (\<lambda>s. newest (nat w) (buffer_next_obs st ! s)) ss),
     prepared_rewards = prepared_rewards p
        @ concat (map (\<lambda>s. newest (nat w) (buffer_rewards st ! s)) ss),
     prepared_dones = prepared_dones p
        @ concat (map (\<lambda>s. newest (nat w) (buffer_dones st ! s)) ss)\<rparr>"
  using assms
proof (induction ss arbitrary: p)
  case Nil
  show ?case by simp
next
  case (Cons s ss)
  from Cons.prems have ih: "\<forall>s \<in> set ss. s < length (buffer_rewards st) \<and> s < length (buffer_ego_actions st)
      \<and> s < length (buffer_scenario_actions st) \<and> s < length (buffer_obs st)
      \<and> s < length (buffer_next_obs st) \<and> s < length (buffer_dones st)
      \<and> length (buffer_ego_actions st ! s) = length (buffer_rewards st ! s)
      \<and> length (buffer_scenario_actions st ! s) = length (buffer_rewards st ! s)
      \<and> length (buffer_obs st ! s) = length (buffer_rewards st ! s)
      \<and> length (buffer_next_obs st ! s) = length (buffer_rewards st ! s)
      \<and> length (buffer_dones st ! s) = length (buffer_rewards st ! s)" by simp
  from Cons.prems have s: "s < length (buffer_rewards st)" "s < length (buffer_ego_actions st)"
      "s < length (buffer_scenario_actions st)" "s < length (buffer_obs st)"
      "s < length (buffer_next_obs st)" "s < length (buffer_dones st)"
      "length (buffer_ego_actions st ! s) = length (buffer_rewards st ! s)"
      "length (buffer_scenario_actions st ! s) = length (buffer_rewards st ! s)"
      "length (buffer_obs st ! s) = length (buffer_rewards st ! s)"
      "length (buffer_next_obs st ! s) = length (buffer_rewards st ! s)"
      "length (buffer_dones st ! s) = length (buffer_rewards st ! s)" by simp_all
  show ?case
    using s by (simp add: getitem_nat Let_def slice_from_newest Cons.IH[OF ih])
qed


lemma prepare_zero: "num_scenario st = 0 \<Longrightarrow> prepare st = Inl ZeroDivisionError"
  by (simp add: prepare_def floordiv_def)

lemma prepare_eq:
  assumes "aligned st" and "num_scenario st \<noteq> 0"
  shows "prepare st = Inr
    \<lparr>prepared_ego_actions = pool (window st) (buffer_ego_actions st) (num_scenario st),
     prepared_scenario_actions = pool (window st) (buffer_scenario_actions st) (num_scenario st),
     prepared_obs = pool (window st) (buffer_obs st) (num_scenario st),
     prepared_next_obs = pool (window st) (buffer_next_obs st) (num_scenario st),
     prepared_rewards = pool (window st) (buffer_rewards st) (num_scenario st),
     prepared_dones = pool (window st) (buffer_dones st) (num_scenario st)\<rparr>"
proof -
  from assms(1) have "\<forall>s \<in> set (py_range (num_scenario st)).
      s < length (buffer_rewards st) \<and> s < length (buffer_ego_actions st)
      \<and> s < length (buffer_scenario_actions st) \<and> s < length (buffer_obs st)
      \<and> s < length (buffer_next_obs st) \<and> s < length (buffer_dones st)
      \<and> length (buffer_ego_actions st ! s) = length (buffer_rewards st ! s)
      \<and> length (buffer_scenario_actions st ! s) = length (buffer_rewards st ! s)
      \<and> length (buffer_obs st ! s) = length (buffer_rewards st ! s)
      \<and> length (buffer_next_obs st ! s) = length (buffer_rewards st ! s)
      \<and> length (buffer_dones st ! s) = length (buffer_rewards st ! s)"
    by (simp add: aligned_def shaped_def py_range_set)
  from sample_loop_eq[OF this] assms(2) show ?thesis
    by (simp add: prepare_def floordiv_def pool_def window_def)
qed

lemma length_newest: "length (newest k xs) = min k (length xs)"
  by (auto simp: newest_def)

lemma length_pool:
  "length (pool k buf n) = sum_list (map (\<lambda>s. min k (length (buf ! s))) (py_range n))"
  by (simp add: pool_def length_concat comp_def length_newest)

lemma length_pool_cong:
  assumes "\<forall>s \<in> set (py_range n). length (buf ! s) = length (buf' ! s)"
  shows "length (pool k buf n) = length (pool k buf' n)"
proof -
  have "map (\<lambda>s. min k (length (buf ! s))) (py_range n)
      = map (\<lambda>s. min k (length (buf' ! s))) (py_range n)"
    using assms by (intro map_cong) simp_all
  then show ?thesis unfolding length_pool by (rule arg_cong)
qed

lemma aligned_pool_lengths:
  assumes "aligned st"
  shows "length (pool k (buffer_ego_actions st) (num_scenario st))
           = length (pool k (buffer_rewards st) (num_scenario st))"
    and "length (pool k (buffer_scenario_actions st) (num_scenario st))
           = length (pool k (buffer_rewards st) (num_scenario st))"
    and "length (pool k (buffer_obs st) (num_scenario st))
           = length (pool k (buffer_rewards st) (num_scenario st))"
    and "length (pool k (buffer_next_obs st) (num_scenario st))
           = length (pool k (buffer_rewards st) (num_scenario st))"
    and "length (pool k (buffer_dones st) (num_scenario st))
           = length (pool k (buffer_rewards st) (num_scenario st))"
  using assms by (auto intro!: length_pool_cong simp: aligned_def)


lemma sample_zero: "num_scenario st = 0 \<Longrightarrow> sample np st batch_size rng = Inl ZeroDivisionError"
  by (simp add: sample_def prepare_zero)

lemma sample_empty:
  assumes "aligned st" and "num_scenario st \<noteq> 0"
    and "pool (window st) (buffer_rewards st) (num_scenario st) = []"
  shows "sample np st batch_size rng = Inl ValueError"
proof -
  note pl = aligned_pool_lengths[OF assms(1), of "window st"]
  from assms(3) pl have e:
    "pool (window st) (buffer_ego_actions st) (num_scenario st) = []"
    "pool (window st) (buffer_scenario_actions st) (num_scenario st) = []"
    by simp_all
  show ?thesis
    by (simp add: sample_def prepare_eq[OF assms(1,2)] assms(3) randint_zero e stack_rows_Nil)
qed

lemma sample_iff:
  assumes "aligned st" and "num_scenario st \<noteq> 0"
    and "pool (window st) (buffer_rewards st) (num_scenario st) \<noteq> []"
  shows "sample np st batch_size rng = Inr b \<longleftrightarrow>
    stackable np st \<and>
    b = (let n = num_scenario st; k = window st;
             idx = draws rng (length (pool k (buffer_rewards st) n)) batch_size
         in \<lparr>action = rows (pool k (action_field st) n) idx,
              state = rows (pool k (buffer_obs st) n) idx,
              n_state = rows (pool k (buffer_next_obs st) n) idx,
              reward = rows (pool k (buffer_rewards st) n) idx,
              done_rows = rows (pool k (buffer_dones st) n) idx\<rparr>)"
proof -
  let ?n = "num_scenario st" and ?k = "window st"
  let ?L = "length (pool ?k (buffer_rewards st) ?n)"
  note pl = aligned_pool_lengths[OF assms(1), of ?k]
  from assms(3) have pos: "0 < ?L" by simp
  have idx: "randint rng 0 (int ?L) batch_size = Inr (draws rng ?L batch_size)"
    using pos by (simp add: randint_pool draws_def)
  note r = stack_rows_draws[OF pl(1) pos] stack_rows_draws[OF pl(2) pos]
    stack_rows_all_draws[OF pl(3) pos] stack_rows_all_draws[OF pl(4) pos]
    stack_rows_draws[OF refl pos] stack_rows_draws[OF pl(5) pos]
  show ?thesis
    by (cases "mode st = ''train_agent''")
       (auto simp: sample_def prepare_eq[OF assms(1,2)] idx r Let_def stackable_def
          action_field_def)
qed

lemma sample_ok:
  assumes "aligned st" and "num_scenario st \<noteq> 0"
    and "pool (window st) (buffer_rewards st) (num_scenario st) \<noteq> []"
    and "stackable np st"
  shows "sample np st batch_size rng =
    Inr (let n = num_scenario st; k = window st;
             idx = draws rng (length (pool k (buffer_rewards st) n)) batch_size
         in \<lparr>action = rows (pool k (action_field st) n) idx,
              state = rows (pool k (buffer_obs st) n) idx,
              n_state = rows (pool k (buffer_next_obs st) n) idx,
              reward = rows (pool k (buffer_rewards st) n) idx,
              done_rows = rows (pool k (buffer_dones st) n) idx\<rparr>)"
  using sample_iff[OF assms(1-3), of np batch_size rng] assms(4) by simp

lemma sample_Inr:
  assumes "aligned st" and "num_scenario st \<noteq> 0" and "sample np st batch_size rng = Inr b"
  shows "pool (window st) (buffer_rewards st) (num_scenario st) \<noteq> []"
    and "stackable np st"
    and "b = \<lparr>action = rows (pool (window st) (action_field st) (num_scenario st))
                 (draws rng (length (pool (window st) (buffer_rewards st) (num_scenario st))) batch_size),
           state = rows (pool (window st) (buffer_obs st) (num_scenario st))
                 (draws rng (length (pool (window st) (buffer_rewards st) (num_scenario st))) batch_size),
           n_state = rows (pool (window st) (buffer_next_obs st) (num_scenario st))
                 (draws rng (length (pool (window st) (buffer_rewards st) (num_scenario st))) batch_size),
           reward = rows (pool (window st) (buffer_rewards st) (num_scenario st))
                 (draws rng (length (pool (window st) (buffer_rewards st) (num_scenario st))) batch_size),
           done_rows = rows (pool (window st) (buffer_dones st) (num_scenario st))
                 (draws rng (length (pool (window st) (buffer_rewards st) (num_scenario st))) batch_size)\<rparr>"
proof -
  show ne: "pool (window st) (buffer_rewards st) (num_scenario st) \<noteq> []"
    using sample_empty[OF assms(1,2), of np batch_size rng] assms(3) by auto
  from sample_iff[OF assms(1,2) ne, of np batch_size rng b] assms(3)
  show "stackable np st"
    and "b = \<lparr>action = rows (pool (window st) (action_field st) (num_scenario st))
                 (draws rng (length (pool (window st) (buffer_rewards st) (num_scenario st))) batch_size),
           state = rows (pool (window st) (buffer_obs st) (num_scenario st))
                 (draws rng (length (pool (window st) (buffer_rewards st) (num_scenario st))) batch_size),
           n_state = rows (pool (window st) (buffer_next_obs st) (num_scenario st))
                 (draws rng (length (pool (window st) (buffer_rewards st) (num_scenario st))) batch_size),
           reward = rows (pool (window st) (buffer_rewards st) (num_scenario st))
                 (draws rng (length (pool (window st) (buffer_rewards st) (num_scenario st))) batch_size),
           done_rows = rows (pool (window st) (buffer_dones st) (num_scenario st))
                 (draws rng (length (pool (window st) (buffer_rewards st) (num_scenario st))) batch_size)\<rparr>"
    by (simp_all add: Let_def)
qed

lemma p_sample_loop_eq:
  assumes "\<forall>s \<in> set ss. s < length (buffer_loss st) \<and> s < length (buffer_bbox_label st)
      \<and> s < length (buffer_predictions st) \<and> s < length (p_buffer_scenario_actions st)
      \<and> s < length (p_buffer_obs st)
      \<and> length (buffer_bbox_label st ! s) = length (buffer_loss st ! s)
      \<and> length (buffer_predictions st ! s) = length (buffer_loss st ! s)
      \<and> length (p_buffer_scenario_actions st ! s) = length (buffer_loss st ! s)
      \<and> length (p_buffer_obs st ! s) = length (buffer_loss st ! s)"
  shows "p_sample_loop st w p ss = Inr
    \<lparr>prepared_bbox_label = prepared_bbox_label p
        @ concat (map (\<lambda>s. newest (nat w) (buffer_bbox_label st ! s)) ss),
     prepared_predictions = prepared_predictions p
        @ concat (map (\<lambda>s. newest (nat w) (buffer_predictions st ! s)) ss),
     p_prepared_obs = p_prepared_obs p
        @ concat (map (\<lambda>s. newest (nat w) (p_buffer_obs st ! s)) ss),
     p_prepared_scenario_actions = p_prepared_scenario_actions p
        @ concat (map (\<lambda>s. newest (nat w) (p_buffer_scenario_actions st ! s)) ss),
     prepared_loss = prepared_loss p
        @ concat (map (\<lambda>s. newest (nat w) (buffer_loss st ! s)) ss)\<rparr>"
  using assms
proof (induction ss arbitrary: p)
  case Nil
  show ?case by simp
next
  case (Cons s ss)
  from Cons.prems have ih: "\<forall>s \<in> set ss. s < length (buffer_loss st) \<and> s < length (buffer_bbox_label st)
      \<and> s < length (buffer_predictions st) \<and> s < length (p_buffer_scenario_actions st)
      \<and> s < length (p_buffer_obs st)
      \<and> length (buffer_bbox_label st ! s) = length (buffer_loss st ! s)
      \<and> length (buffer_predictions st ! s) = length (buffer_loss st ! s)
      \<and> length (p_buffer_scenario_actions st ! s) = length (buffer_loss st ! s)
      \<and> length (p_buffer_obs st ! s) = length (buffer_loss st ! s)" by simp
  from Cons.prems have s: "s < length (buffer_loss st)" "s < length (buffer_bbox_label st)"
      "s < length (buffer_predictions st)" "s < length (p_buffer_scenario_actions st)"
      "s < length (p_buffer_obs st)"
      "length (buffer_bbox_label st ! s) = length (buffer_loss st ! s)"
      "length (buffer_predictions st ! s) = length (buffer_loss st ! s)"
      "length (p_buffer_scenario_actions st ! s) = length (buffer_loss st ! s)"
      "length (p_buffer_obs st ! s) = length (buffer_loss st ! s)" by simp_all
  show ?case
    using s by (simp add: getitem_nat Let_def slice_from_newest Cons.IH[OF ih])
qed

lemma p_prepare_eq:
  assumes "p_aligned st" and "p_num_scenario st \<noteq> 0"
  shows "p_prepare st = Inr
    \<lparr>prepared_bbox_label = pool (p_window st) (buffer_bbox_label st) (p_num_scenario st),
     prepared_predictions = pool (p_window st) (buffer_predictions st) (p_num_scenario st),
     p_prepared_obs = pool (p_window st) (p_buffer_obs st) (p_num_scenario st),
     p_prepared_scenario_actions =
       pool (p_window st) (p_buffer_scenario_actions st) (p_num_scenario st),
     prepared_loss = pool (p_window st) (buffer_loss st) (p_num_scenario st)\<rparr>"
proof -
  from assms(1) have "\<forall>s \<in> set (py_range (p_num_scenario st)).
      s < length (buffer_loss st) \<and> s < length (buffer_bbox_label st)
      \<and> s < length (buffer_predictions st) \<and> s < length (p_buffer_scenario_actions st)
      \<and> s < length (p_buffer_obs st)
      \<and> length (buffer_bbox_label st ! s) = length (buffer_loss st ! s)
      \<and> length (buffer_predictions st ! s) = length (buffer_loss st ! s)
      \<and> length (p_buffer_scenario_actions st ! s) = length (buffer_loss st ! s)
      \<and> length (p_buffer_obs st ! s) = length (buffer_loss st ! s)"
    by (simp add: p_aligned_def p_shaped_def py_range_set)
  from p_sample_loop_eq[OF this] assms(2) show ?thesis
    by (simp add: p_prepare_def floordiv_def pool_def p_window_def)
qed

lemma p_aligned_pool_lengths:
  assumes "p_aligned st"
  shows "length (pool k (buffer_bbox_label st) (p_num_scenario st))
           = length (pool k (buffer_loss st) (p_num_scenario st))"
    and "length (pool k (p_buffer_obs st) (p_num_scenario st))
           = length (pool k (buffer_loss st) (p_num_scenario st))"
  using assms by (auto intro!: length_pool_cong simp: p_aligned_def)


lemma p_sample_zero:
  "p_num_scenario st = 0 \<Longrightarrow> p_sample np st batch_size rng = Inl ZeroDivisionError"
  by (simp add: p_sample_def p_prepare_def floordiv_def)

lemma p_sample_empty:
  assumes "p_aligned st" and "p_num_scenario st \<noteq> 0"
    and "pool (p_window st) (buffer_loss st) (p_num_scenario st) = []"
  shows "p_sample np st batch_size rng = Inl ValueError"
proof -
  note pl = p_aligned_pool_lengths[OF assms(1), of "p_window st"]
  from assms(3) pl have e:
    "pool (p_window st) (buffer_bbox_label st) (p_num_scenario st) = []"
    by simp
  show ?thesis
    by (simp add: p_sample_def p_prepare_eq[OF assms(1,2)] assms(3) randint_zero e
        stack_rows_all_Nil)
qed

lemma p_sample_iff:
  assumes "p_aligned st" and "p_num_scenario st \<noteq> 0"
    and "pool (p_window st) (buffer_loss st) (p_num_scenario st) \<noteq> []"
  shows "p_sample np st batch_size rng = Inr b \<longleftrightarrow>
    p_stackable np st \<and>
    b = (let n = p_num_scenario st; k = p_window st;
             idx = draws rng (length (pool k (buffer_loss st) n)) batch_size
         in \<lparr>label = rows (pool k (buffer_bbox_label st) n) idx,
              image = rows (pool k (p_buffer_obs st) n) idx,
              loss = rows (pool k (buffer_loss st) n) idx\<rparr>)"
proof -
  let ?n = "p_num_scenario st" and ?k = "p_window st"
  let ?L = "length (pool ?k (buffer_loss st) ?n)"
  note pl = p_aligned_pool_lengths[OF assms(1), of ?k]
  from assms(3) have pos: "0 < ?L" by simp
  have idx: "randint rng 0 (int ?L) batch_size = Inr (draws rng ?L batch_size)"
    using pos by (simp add: randint_pool draws_def)
  note r = stack_rows_all_draws[OF pl(1) pos] stack_rows_all_draws[OF pl(2) pos]
    stack_rows_draws[OF refl pos]
  show ?thesis
    by (auto simp: p_sample_def p_prepare_eq[OF assms(1,2)] idx r Let_def p_stackable_def)
qed

lemma p_sample_Inr:
  assumes "p_aligned st" and "p_num_scenario st \<noteq> 0" and "p_sample np st batch_size rng = Inr b"
  shows "pool (p_window st) (buffer_loss st) (p_num_scenario st) \<noteq> []"
    and "p_stackable np st"
    and "b = \<lparr>label = rows (pool (p_window st) (buffer_bbox_label st) (p_num_scenario st))
                 (draws rng (length (pool (p_window st) (buffer_loss st) (p_num_scenario st))) batch_size),
           image = rows (pool (p_window st) (p_buffer_obs st) (p_num_scenario st))
                 (draws rng (length (pool (p_window st) (buffer_loss st) (p_num_scenario st))) batch_size),
           loss = rows (pool (p_window st) (buffer_loss st) (p_num_scenario st))
                 (draws rng (length (pool (p_window st) (buffer_loss st) (p_num_scenario st))) batch_size)\<rparr>"
proof -
  show ne: "pool (p_window st) (buffer_loss st) (p_num_scenario st) \<noteq> []"
    using p_sample_empty[OF assms(1,2), of np batch_size rng] assms(3) by auto
  from p_sample_iff[OF assms(1,2) ne, of np batch_size rng b] assms(3)
  show "p_stackable np st"
    and "b = \<lparr>label = rows (pool (p_window st) (buffer_bbox_label st) (p_num_scenario st))
                 (draws rng (length (pool (p_window st) (buffer_loss st) (p_num_scenario st))) batch_size),
           image = rows (pool (p_window st) (p_buffer_obs st) (p_num_scenario st))
                 (draws rng (length (pool (p_window st) (buffer_loss st) (p_num_scenario st))) batch_size),
           loss = rows (pool (p_window st) (buffer_loss st) (p_num_scenario st))
                 (draws rng (length (pool (p_window st) (buffer_loss st) (p_num_scenario st))) batch_size)\<rparr>"
    by (simp_all add: Let_def)
qed

lemma in_set_drop_nth:
  "x \<in> set (drop n xs) \<longleftrightarrow> (\<exists>j. n \<le> j \<and> j < length xs \<and> xs ! j = x)"
proof (cases "n \<le> length xs")
  case True
  show ?thesis
  proof
    assume "x \<in> set (drop n xs)"
    then obtain i where "i < length xs - n" "drop n xs ! i = x"
      by (auto simp: in_set_conv_nth)
    with True have "n \<le> n + i \<and> n + i < length xs \<and> xs ! (n + i) = x" by simp
    then show "\<exists>j. n \<le> j \<and> j < length xs \<and> xs ! j = x" by blast
  next
    assume "\<exists>j. n \<le> j \<and> j < length xs \<and> xs ! j = x"
    then obtain j where j: "n \<le> j" "j < length xs" "xs ! j = x" by blast
    with True have "j - n < length (drop n xs)" "drop n xs ! (j - n) = x" by simp_all
    then show "x \<in> set (drop n xs)" by (metis nth_mem)
  qed
next
  case False
  then show ?thesis by auto
qed

lemma in_newest_conv:
  "x \<in> set (newest k xs) \<longleftrightarrow> (\<exists>j. length xs - k \<le> j \<and> j < length xs \<and> xs ! j = x)"
  by (simp add: newest_def in_set_drop_nth)

lemma in_pool_conv:
  "x \<in> set (pool k buf n) \<longleftrightarrow> (\<exists>s \<in> set (py_range n). x \<in> set (newest k (buf ! s)))"
  by (auto simp: pool_def)

lemma pool_rows_in_window:
  assumes "\<forall>i \<in> set idx. i < length (pool k buf n)"
    and "x \<in> set (rows (pool k buf n) idx)"
  shows "\<exists>s \<in> set (py_range n). x \<in> set (newest k (buf ! s))"
proof -
  from assms have "x \<in> set (pool k buf n)" by (auto simp: rows_def)
  then show ?thesis by (simp add: in_pool_conv)
qed


lemma only_older_not_in_window:
  assumes "only_older k buf n v"
  shows "\<not> in_window k buf n v"
proof
  assume "in_window k buf n v"
  then obtain s j where s: "s \<in> set (py_range n)"
    and j: "length (buf ! s) - k \<le> j" "j < length (buf ! s)" "buf ! s ! j = v"
    by (auto simp: in_window_def in_newest_conv)
  from assms s j(2,3) have "j < length (buf ! s) - k"
    by (simp add: only_older_def)
  with j(1) show False by simp
qed

lemma rows_in_window:
  assumes "\<forall>i \<in> set idx. i < length (pool k buf n)"
  shows "\<forall>x \<in> set (rows (pool k buf n) idx). in_window k buf n x"
  using pool_rows_in_window[OF assms] by (auto simp: in_window_def)

lemma draws_rows_in_window:
  assumes "length (pool k buf n) = len" and "0 < len"
  shows "\<forall>x \<in> set (rows (pool k buf n) (draws rng len batch_size)). in_window k buf n x"
  using assms draws_in_range[of len _ rng batch_size] by (intro rows_in_window) auto

lemma draws_onto:
  assumes "\<forall>i \<in> set idxs. i < len"
  shows "\<exists>rng. draws rng len (length idxs) = idxs"
  using draws_any[OF assms] by blast


lemma draws_rows_fresh:
  assumes "length (pool k buf n) = len" and "0 < len" and "only_older k buf n v"
  shows "v \<notin> set (rows (pool k buf n) (draws rng len batch_size))"
  using draws_rows_in_window[OF assms(1,2)] only_older_not_in_window[OF assms(3)] by blast


lemma action_pool_length:
  assumes "aligned st"
  shows "length (pool k (action_field st) (num_scenario st))
           = length (pool k (buffer_rewards st) (num_scenario st))"
  using aligned_pool_lengths(1,2)[OF assms, of k] by (simp add: action_field_def)

lemma sample_rows_in_window:
  assumes "aligned st" and "num_scenario st \<noteq> 0" and "sample np st batch_size rng = Inr b"
  shows "\<forall>x \<in> set (action b). in_window (window st) (action_field st) (num_scenario st) x"
    and "\<forall>x \<in> set (state b). in_window (window st) (buffer_obs st) (num_scenario st) x"
    and "\<forall>x \<in> set (n_state b). in_window (window st) (buffer_next_obs st) (num_scenario st) x"
    and "\<forall>x \<in> set (reward b). in_window (window st) (buffer_rewards st) (num_scenario st) x"
    and "\<forall>x \<in> set (done_rows b). in_window (window st) (buffer_dones st) (num_scenario st) x"
proof -
  let ?n = "num_scenario st" and ?k = "window st"
  let ?L = "length (pool ?k (buffer_rewards st) ?n)"
  note pl = aligned_pool_lengths[OF assms(1), of ?k]
  from sample_Inr(1)[OF assms] have pos: "0 < ?L" by simp
  note b = sample_Inr(3)[OF assms]
  note la = action_pool_length[OF assms(1), of ?k]
  show "\<forall>x \<in> set (action b). in_window (window st) (action_field st) (num_scenario st) x"
    by (subst b, simp only: batch.simps) (rule draws_rows_in_window[OF la pos])
  show "\<forall>x \<in> set (state b). in_window (window st) (buffer_obs st) (num_scenario st) x"
    by (subst b, simp only: batch.simps) (rule draws_rows_in_window[OF pl(3) pos])
  show "\<forall>x \<in> set (n_state b). in_window (window st) (buffer_next_obs st) (num_scenario st) x"
    by (subst b, simp only: batch.simps) (rule draws_rows_in_window[OF pl(4) pos])
  show "\<forall>x \<in> set (reward b). in_window (window st) (buffer_rewards st) (num_scenario st) x"
    by (subst b, simp only: batch.simps) (rule draws_rows_in_window[OF refl pos])
  show "\<forall>x \<in> set (done_rows b). in_window (window st) (buffer_dones st) (num_scenario st) x"
    by (subst b, simp only: batch.simps) (rule draws_rows_in_window[OF pl(5) pos])
qed

lemma p_sample_rows_in_window:
  assumes "p_aligned st" and "p_num_scenario st \<noteq> 0" and "p_sample np st batch_size rng = Inr b"
  shows "\<forall>x \<in> set (label b). in_window (p_window st) (buffer_bbox_label st) (p_num_scenario st) x"
    and "\<forall>x \<in> set (image b). in_window (p_window st) (p_buffer_obs st) (p_num_scenario st) x"
    and "\<forall>x \<in> set (loss b). in_window (p_window st) (buffer_loss st) (p_num_scenario st) x"
proof -
  let ?n = "p_num_scenario st" and ?k = "p_window st"
  let ?L = "length (pool ?k (buffer_loss st) ?n)"
  note pl = p_aligned_pool_lengths[OF assms(1), of ?k]
  from p_sample_Inr(1)[OF assms] have pos: "0 < ?L" by simp
  note b = p_sample_Inr(3)[OF assms]
  show "\<forall>x \<in> set (label b). in_window (p_window st) (buffer_bbox_label st) (p_num_scenario st) x"
    by (subst b, simp only: p_batch.simps) (rule draws_rows_in_window[OF pl(1) pos])
  show "\<forall>x \<in> set (image b). in_window (p_window st) (p_buffer_obs st) (p_num_scenario st) x"
    by (subst b, simp only: p_batch.simps) (rule draws_rows_in_window[OF pl(2) pos])
  show "\<forall>x \<in> set (loss b). in_window (p_window st) (buffer_loss st) (p_num_scenario st) x"
    by (subst b, simp only: p_batch.simps) (rule draws_rows_in_window[OF refl pos])
qed

lemma sample_rows:
  assumes "aligned st" and "num_scenario st \<noteq> 0" and "sample np st batch_size rng = Inr b"
  shows "let idx = draws rng (length (pool (window st) (buffer_rewards st) (num_scenario st)))
                     batch_size
         in (\<forall>i \<in> set idx. i < length (pool (window st) (buffer_rewards st) (num_scenario st)))
          \<and> action b = rows (pool (window st) (action_field st) (num_scenario st)) idx
          \<and> state b = rows (pool (window st) (buffer_obs st) (num_scenario st)) idx
          \<and> n_state b = rows (pool (window st) (buffer_next_obs st) (num_scenario st)) idx
          \<and> reward b = rows (pool (window st) (buffer_rewards st) (num_scenario st)) idx
          \<and> done_rows b = rows (pool (window st) (buffer_dones st) (num_scenario st)) idx"
proof -
  from sample_Inr(1)[OF assms]
  have pos: "0 < length (pool (window st) (buffer_rewards st) (num_scenario st))" by simp
  show ?thesis
    unfolding Let_def
    by (subst (1 2 3 4 5) sample_Inr(3)[OF assms], simp only: batch.simps)
       (use draws_in_range[OF pos] in blast)
qed

lemma p_sample_rows:
  assumes "p_aligned st" and "p_num_scenario st \<noteq> 0" and "p_sample np st batch_size rng = Inr b"
  shows "let idx = draws rng (length (pool (p_window st) (buffer_loss st) (p_num_scenario st)))
                     batch_size
         in (\<forall>i \<in> set idx. i < length (pool (p_window st) (buffer_loss st) (p_num_scenario st)))
          \<and> label b = rows (pool (p_window st) (buffer_bbox_label st) (p_num_scenario st)) idx
          \<and> image b = rows (pool (p_window st) (p_buffer_obs st) (p_num_scenario st)) idx
          \<and> loss b = rows (pool (p_window st) (buffer_loss st) (p_num_scenario st)) idx"
proof -
  from p_sample_Inr(1)[OF assms]
  have pos: "0 < length (pool (p_window st) (buffer_loss st) (p_num_scenario st))" by simp
  show ?thesis
    unfolding Let_def
    by (subst (1 2 3) p_sample_Inr(3)[OF assms], simp only: p_batch.simps)
       (use draws_in_range[OF pos] in blast)
qed

lemma three_steps_eq: "three_steps m =
  \<lparr>mode = m, buffer_capacity = 2, num_scenario = 1,
    buffer_len = 3, buffer_ego_actions = [[Vector [7], Vector [8], Vector [9]]],
    buffer_scenario_actions = [[Vector [1007], Vector [1008], Vector [1009]]],
    buffer_obs = [[Vector [2007], Vector [2008], Vector [2009]]],
    buffer_next_obs = [[Vector [3007], Vector [3008], Vector [3009]]],
    buffer_rewards = [[Scalar 7, Scalar 8, Scalar 9]],
    buffer_dones = [[Scalar 0, Scalar 0, Scalar 0]], buffer_additional_dict = [[]],
    buffer_static_obs = [], buffer_init_action = [],
    buffer_episode_reward = [], buffer_init_additional_dict = [],
    init_buffer_len = 0\<rparr>"
  by (simp add: three_steps_def store_row_def transition_def id_tag_def ReplayBuffer_def
      reset_buffer_def reset_init_buffer_def store_def read_fields_def field_len_def
      field_item_def store_step_def store_fields_def append_at_def
      getitem_def list_index_def dict_get_def py_range_def Let_def)

lemma p_three_steps_eq: "p_three_steps =
  \<lparr>p_mode = ''train_agent'', p_buffer_capacity = 2, p_num_scenario = 1, p_buffer_len = 3,
    buffer_bbox_label = [[PyObj (Vector [3007]), PyObj (Vector [3008]), PyObj (Vector [3009])]],
    buffer_predictions = [[PyObj (Vector [7]), PyObj (Vector [8]), PyObj (Vector [9])]],
    p_buffer_scenario_actions =
      [[PyObj (Vector [1007]), PyObj (Vector [1008]), PyObj (Vector [1009])]],
    p_buffer_obs = [[PyObj (Vector [2007]), PyObj (Vector [2008]), PyObj (Vector [2009])]],
    buffer_loss = [[PyObj (Scalar 4007), PyObj (Scalar 4008), PyObj (Scalar 4009)]]\<rparr>"
  by (simp add: p_three_steps_def p_store_row_def ReplayBuffer_Perception_def p_store_def
      field_len_def field_item_def
      p_store_step_def p_store_fields_def append_key_at_def getitem_def list_index_def
      dict_get_def py_range_def Let_def)

text \<open>
  Claim C3 does not hold in every state of the buffer. \<^verbatim>\<open>sample\<close> computes the start
  index of a scenario id from the length of its reward bucket and cuts every field of
  that id there, so the claim depends on the buckets being of equal length, and a failed
  \<^verbatim>\<open>store\<close> leaves them unequal. In a buffer of capacity 1 with one scenario slot that
  has stored step 7 and then failed to store a batch without scenario actions, the ego
  bucket holds the actions 7 and 8 while the reward bucket holds one reward: \<open>W\<close> is 1,
  the pool of ego actions has two entries, and the sampled action is 7, which is older
  than the newest entry of its bucket.
\<close>

theorem sample_reads_older_entry_counterexample:
  "window skewed = 1
   \<and> buffer_ego_actions skewed = [[Vector [7], Vector [8]]]
   \<and> prepare skewed =
       Inr \<lparr>prepared_ego_actions = [Vector [7], Vector [8]],
            prepared_scenario_actions = [Vector [1007]], prepared_obs = [Vector [2007]],
            prepared_next_obs = [Vector [3007]], prepared_rewards = [Scalar 7],
            prepared_dones = [Scalar 0]\<rparr>
   \<and> sample int64_numpy skewed 1 id =
       Inr \<lparr>action = [Vector [7]], state = [Vector [2007]], n_state = [Vector [3007]],
            reward = [Scalar 7], done_rows = [Scalar 0]\<rparr>
   \<and> only_older (window skewed) (buffer_ego_actions skewed) (num_scenario skewed) (Vector [7])"
  by code_simp
text \<open>
  Claim C3, as far as it holds. In an aligned buffer (generic or perception) with a
  non-zero number of scenario slots, the lists that \<^verbatim>\<open>sample\<close> prepares are, field by
  field, the newest \<open>W = floor(buffer_capacity / num_scenario)\<close> entries of each
  scenario id's bucket (the whole bucket when shorter), scenario id after scenario id,
  each in temporal order. The generator draws \<open>batch_size\<close> indices, all of them in the
  pool, and every field of a returned batch consists of the rows of its pool at exactly
  these indices, in the order drawn. Every row of a returned batch is therefore among
  the newest \<open>W\<close> entries of some scenario id, and a value that occurs in the buckets
  only at positions older than the newest \<open>W\<close> of its bucket is in no returned batch.
  Repeats are allowed, and every vector of pool indices is the draw of some generator
  state (the probability of a draw is outside this model).
\<close>

theorem sample_draws_from_newest_window:
  "(aligned st \<and> num_scenario st \<noteq> 0 \<longrightarrow>
      prepare st = Inr
        \<lparr>prepared_ego_actions = pool (window st) (buffer_ego_actions st) (num_scenario st),
         prepared_scenario_actions = pool (window st) (buffer_scenario_actions st) (num_scenario st),
         prepared_obs = pool (window st) (buffer_obs st) (num_scenario st),
         prepared_next_obs = pool (window st) (buffer_next_obs st) (num_scenario st),
         prepared_rewards = pool (window st) (buffer_rewards st) (num_scenario st),
         prepared_dones = pool (window st) (buffer_dones st) (num_scenario st)\<rparr>
      \<and> (sample np st batch_size rng = Inr b \<longrightarrow>
           (let idx = draws rng (length (pool (window st) (buffer_rewards st) (num_scenario st)))
                        batch_size
            in (\<forall>i \<in> set idx. i < length (pool (window st) (buffer_rewards st) (num_scenario st)))
             \<and> action b = rows (pool (window st) (action_field st) (num_scenario st)) idx
             \<and> state b = rows (pool (window st) (buffer_obs st) (num_scenario st)) idx
             \<and> n_state b = rows (pool (window st) (buffer_next_obs st) (num_scenario st)) idx
             \<and> reward b = rows (pool (window st) (buffer_rewards st) (num_scenario st)) idx
             \<and> done_rows b = rows (pool (window st) (buffer_dones st) (num_scenario st)) idx) \<and>
           (only_older (window st) (buffer_obs st) (num_scenario st) v \<longrightarrow> v \<notin> set (state b)) \<and>
           (only_older (window st) (buffer_next_obs st) (num_scenario st) v
              \<longrightarrow> v \<notin> set (n_state b)) \<and>
           (only_older (window st) (action_field st) (num_scenario st) v
              \<longrightarrow> v \<notin> set (action b)) \<and>
           (only_older (window st) (buffer_rewards st) (num_scenario st) v
              \<longrightarrow> v \<notin> set (reward b)) \<and>
           (only_older (window st) (buffer_dones st) (num_scenario st) v
              \<longrightarrow> v \<notin> set (done_rows b)) \<and>
           (\<forall>x \<in> set (action b). in_window (window st) (action_field st) (num_scenario st) x) \<and>
           (\<forall>x \<in> set (state b). in_window (window st) (buffer_obs st) (num_scenario st) x) \<and>
           (\<forall>x \<in> set (n_state b). in_window (window st) (buffer_next_obs st) (num_scenario st) x) \<and>
           (\<forall>x \<in> set (reward b). in_window (window st) (buffer_rewards st) (num_scenario st) x) \<and>
           (\<forall>x \<in> set (done_rows b). in_window (window st) (buffer_dones st) (num_scenario st) x)))
   \<and> (p_aligned pst \<and> p_num_scenario pst \<noteq> 0 \<longrightarrow>
      p_prepare pst = Inr
        \<lparr>prepared_bbox_label = pool (p_window pst) (buffer_bbox_label pst) (p_num_scenario pst),
         prepared_predictions = pool (p_window pst) (buffer_predictions pst) (p_num_scenario pst),
         p_prepared_obs = pool (p_window pst) (p_buffer_obs pst) (p_num_scenario pst),
         p_prepared_scenario_actions =
           pool (p_window pst) (p_buffer_scenario_actions pst) (p_num_scenario pst),
         prepared_loss = pool (p_window pst) (buffer_loss pst) (p_num_scenario pst)\<rparr>
      \<and> (p_sample np pst batch_size rng = Inr pb \<longrightarrow>
           (let idx = draws rng
                        (length (pool (p_window pst) (buffer_loss pst) (p_num_scenario pst)))
                        batch_size
            in (\<forall>i \<in> set idx.
                  i < length (pool (p_window pst) (buffer_loss pst) (p_num_scenario pst)))
             \<and> label pb = rows (pool (p_window pst) (buffer_bbox_label pst) (p_num_scenario pst)) idx
             \<and> image pb = rows (pool (p_window pst) (p_buffer_obs pst) (p_num_scenario pst)) idx
             \<and> loss pb = rows (pool (p_window pst) (buffer_loss pst) (p_num_scenario pst)) idx) \<and>
           (only_older (p_window pst) (p_buffer_obs pst) (p_num_scenario pst) pv
              \<longrightarrow> pv \<notin> set (image pb)) \<and>
           (only_older (p_window pst) (buffer_bbox_label pst) (p_num_scenario pst) pv
              \<longrightarrow> pv \<notin> set (label pb)) \<and>
           (only_older (p_window pst) (buffer_loss pst) (p_num_scenario pst) pv
              \<longrightarrow> pv \<notin> set (loss pb)) \<and>
           (\<forall>x \<in> set (label pb).
              in_window (p_window pst) (buffer_bbox_label pst) (p_num_scenario pst) x) \<and>
           (\<forall>x \<in> set (image pb).
              in_window (p_window pst) (p_buffer_obs pst) (p_num_scenario pst) x) \<and>
           (\<forall>x \<in> set (loss pb).
              in_window (p_window pst) (buffer_loss pst) (p_num_scenario pst) x)))
   \<and> length (draws rng len batch_size) = batch_size
   \<and> ((\<forall>i \<in> set idxs. i < len) \<longrightarrow> (\<exists>g. draws g len (length idxs) = idxs))"
proof (intro conjI impI ballI)
  assume h: "aligned st \<and> num_scenario st \<noteq> 0"
  then show "prepare st = Inr
        \<lparr>prepared_ego_actions = pool (window st) (buffer_ego_actions st) (num_scenario st),
         prepared_scenario_actions = pool (window st) (buffer_scenario_actions st) (num_scenario st),
         prepared_obs = pool (window st) (buffer_obs st) (num_scenario st),
         prepared_next_obs = pool (window st) (buffer_next_obs st) (num_scenario st),
         prepared_rewards = pool (window st) (buffer_rewards st) (num_scenario st),
         prepared_dones = pool (window st) (buffer_dones st) (num_scenario st)\<rparr>"
    by (intro prepare_eq) simp_all
  assume ok: "sample np st batch_size rng = Inr b"
  from h have a: "aligned st" and n: "num_scenario st \<noteq> 0" by simp_all
  note w = sample_rows_in_window[OF a n ok]
  show "let idx = draws rng (length (pool (window st) (buffer_rewards st) (num_scenario st)))
                        batch_size
            in (\<forall>i \<in> set idx. i < length (pool (window st) (buffer_rewards st) (num_scenario st)))
             \<and> action b = rows (pool (window st) (action_field st) (num_scenario st)) idx
             \<and> state b = rows (pool (window st) (buffer_obs st) (num_scenario st)) idx
             \<and> n_state b = rows (pool (window st) (buffer_next_obs st) (num_scenario st)) idx
             \<and> reward b = rows (pool (window st) (buffer_rewards st) (num_scenario st)) idx
             \<and> done_rows b = rows (pool (window st) (buffer_dones st) (num_scenario st)) idx"
    by (rule sample_rows[OF a n ok])
  { fix x assume "x \<in> set (action b)"
    with w(1) show "in_window (window st) (action_field st) (num_scenario st) x" by blast }
  { fix x assume "x \<in> set (state b)"
    with w(2) show "in_window (window st) (buffer_obs st) (num_scenario st) x" by blast }
  { fix x assume "x \<in> set (n_state b)"
    with w(3) show "in_window (window st) (buffer_next_obs st) (num_scenario st) x" by blast }
  { fix x assume "x \<in> set (reward b)"
    with w(4) show "in_window (window st) (buffer_rewards st) (num_scenario st) x" by blast }
  { fix x assume "x \<in> set (done_rows b)"
    with w(5) show "in_window (window st) (buffer_dones st) (num_scenario st) x" by blast }
  { assume "only_older (window st) (buffer_obs st) (num_scenario st) v"
    from only_older_not_in_window[OF this] w(2) show "v \<notin> set (state b)" by blast }
  { assume "only_older (window st) (buffer_next_obs st) (num_scenario st) v"
    from only_older_not_in_window[OF this] w(3) show "v \<notin> set (n_state b)" by blast }
  { assume "only_older (window st) (action_field st) (num_scenario st) v"
    from only_older_not_in_window[OF this] w(1) show "v \<notin> set (action b)" by blast }
  { assume "only_older (window st) (buffer_rewards st) (num_scenario st) v"
    from only_older_not_in_window[OF this] w(4) show "v \<notin> set (reward b)" by blast }
  { assume "only_older (window st) (buffer_dones st) (num_scenario st) v"
    from only_older_not_in_window[OF this] w(5) show "v \<notin> set (done_rows b)" by blast }
next
  assume h: "p_aligned pst \<and> p_num_scenario pst \<noteq> 0"
  then show "p_prepare pst = Inr
        \<lparr>prepared_bbox_label = pool (p_window pst) (buffer_bbox_label pst) (p_num_scenario pst),
         prepared_predictions = pool (p_window pst) (buffer_predictions pst) (p_num_scenario pst),
         p_prepared_obs = pool (p_window pst) (p_buffer_obs pst) (p_num_scenario pst),
         p_prepared_scenario_actions =
           pool (p_window pst) (p_buffer_scenario_actions pst) (p_num_scenario pst),
         prepared_loss = pool (p_window pst) (buffer_loss pst) (p_num_scenario pst)\<rparr>"
    by (intro p_prepare_eq) simp_all
  assume ok: "p_sample np pst batch_size rng = Inr pb"
  from h have a: "p_aligned pst" and n: "p_num_scenario pst \<noteq> 0" by simp_all
  note w = p_sample_rows_in_window[OF a n ok]
  show "let idx = draws rng
                        (length (pool (p_window pst) (buffer_loss pst) (p_num_scenario pst)))
                        batch_size
            in (\<forall>i \<in> set idx.
                  i < length (pool (p_window pst) (buffer_loss pst) (p_num_scenario pst)))
             \<and> label pb = rows (pool (p_window pst) (buffer_bbox_label pst) (p_num_scenario pst)) idx
             \<and> image pb = rows (pool (p_window pst) (p_buffer_obs pst) (p_num_scenario pst)) idx
             \<and> loss pb = rows (pool (p_window pst) (buffer_loss pst) (p_num_scenario pst)) idx"
    by (rule p_sample_rows[OF a n ok])
  { fix x assume "x \<in> set (label pb)"
    with w(1) show "in_window (p_window pst) (buffer_bbox_label pst) (p_num_scenario pst) x"
      by blast }
  { fix x assume "x \<in> set (image pb)"
    with w(2) show "in_window (p_window pst) (p_buffer_obs pst) (p_num_scenario pst) x"
      by blast }
  { fix x assume "x \<in> set (loss pb)"
    with w(3) show "in_window (p_window pst) (buffer_loss pst) (p_num_scenario pst) x"
      by blast }
  { assume "only_older (p_window pst) (p_buffer_obs pst) (p_num_scenario pst) pv"
    from only_older_not_in_window[OF this] w(2) show "pv \<notin> set (image pb)" by blast }
  { assume "only_older (p_window pst) (buffer_bbox_label pst) (p_num_scenario pst) pv"
    from only_older_not_in_window[OF this] w(1) show "pv \<notin> set (label pb)" by blast }
  { assume "only_older (p_window pst) (buffer_loss pst) (p_num_scenario pst) pv"
    from only_older_not_in_window[OF this] w(3) show "pv \<notin> set (loss pb)" by blast }
next
  show "length (draws rng len batch_size) = batch_size" by (rule length_draws)
next
  assume "\<forall>i \<in> set idxs. i < len"
  then show "\<exists>g. draws g len (length idxs) = idxs" by (rule draws_onto)
qed

theorem sample_draws_from_newest_window_witness:
  "aligned (three_steps ''train_agent'') \<and> num_scenario (three_steps ''train_agent'') \<noteq> 0
   \<and> window (three_steps ''train_agent'') = 2
   \<and> buffer_obs (three_steps ''train_agent'') = [[Vector [2007], Vector [2008], Vector [2009]]]
   \<and> sample int64_numpy (three_steps ''train_agent'') 4 (\<lambda>k. k) =
        Inr \<lparr>action = [Vector [8], Vector [9], Vector [8], Vector [9]],
             state = [Vector [2008], Vector [2009], Vector [2008], Vector [2009]],
             n_state = [Vector [3008], Vector [3009], Vector [3008], Vector [3009]],
             reward = [Scalar 8, Scalar 9, Scalar 8, Scalar 9],
             done_rows = [Scalar 0, Scalar 0, Scalar 0, Scalar 0]\<rparr>
   \<and> Vector [2007] \<notin> set (state
           \<lparr>action = [Vector [8], Vector [9], Vector [8], Vector [9]],
             state = [Vector [2008], Vector [2009], Vector [2008], Vector [2009]],
             n_state = [Vector [3008], Vector [3009], Vector [3008], Vector [3009]],
             reward = [Scalar 8, Scalar 9, Scalar 8, Scalar 9],
             done_rows = [Scalar 0, Scalar 0, Scalar 0, Scalar 0]\<rparr>)
   \<and> p_aligned p_three_steps \<and> p_num_scenario p_three_steps \<noteq> 0
   \<and> p_sample int64_numpy p_three_steps 3 (\<lambda>k. k) =
        Inr \<lparr>label = [PyObj (Vector [3008]), PyObj (Vector [3009]), PyObj (Vector [3008])],
             image = [PyObj (Vector [2008]), PyObj (Vector [2009]), PyObj (Vector [2008])],
             loss = [PyObj (Scalar 4008), PyObj (Scalar 4009), PyObj (Scalar 4008)]\<rparr>
   \<and> PyObj (Vector [2007]) \<notin> set (image
           \<lparr>label = [PyObj (Vector [3008]), PyObj (Vector [3009]), PyObj (Vector [3008])],
             image = [PyObj (Vector [2008]), PyObj (Vector [2009]), PyObj (Vector [2008])],
             loss = [PyObj (Scalar 4008), PyObj (Scalar 4009), PyObj (Scalar 4008)]\<rparr>)"
proof -
  let ?st = "three_steps ''train_agent''"
  let ?b = "\<lparr>action = [Vector [8], Vector [9], Vector [8], Vector [9]],
             state = [Vector [2008], Vector [2009], Vector [2008], Vector [2009]],
             n_state = [Vector [3008], Vector [3009], Vector [3008], Vector [3009]],
             reward = [Scalar 8, Scalar 9, Scalar 8, Scalar 9],
             done_rows = [Scalar 0, Scalar 0, Scalar 0, Scalar 0]\<rparr>"
  let ?pb = "\<lparr>label = [PyObj (Vector [3008]), PyObj (Vector [3009]), PyObj (Vector [3008])],
             image = [PyObj (Vector [2008]), PyObj (Vector [2009]), PyObj (Vector [2008])],
             loss = [PyObj (Scalar 4008), PyObj (Scalar 4009), PyObj (Scalar 4008)]\<rparr>"
  have a: "aligned ?st"
    by (simp add: three_steps_eq aligned_def shaped_def py_range_def)
  have n: "num_scenario ?st \<noteq> 0" by (simp add: three_steps_eq)
  have k: "window ?st = 2" by (simp add: three_steps_eq window_def)
  have o: "buffer_obs ?st = [[Vector [2007], Vector [2008], Vector [2009]]]"
    by (simp add: three_steps_eq)
  have old: "only_older (window ?st) (buffer_obs ?st) (num_scenario ?st) (Vector [2007])"
    by (simp add: three_steps_eq window_def only_older_def py_range_def)
  have s: "sample int64_numpy ?st 4 (\<lambda>k. k) = Inr ?b"
    by code_simp
  have pa: "p_aligned p_three_steps"
    by (simp add: p_three_steps_eq p_aligned_def p_shaped_def py_range_def)
  have pn: "p_num_scenario p_three_steps \<noteq> 0" by (simp add: p_three_steps_eq)
  have pold: "only_older (p_window p_three_steps) (p_buffer_obs p_three_steps)
                (p_num_scenario p_three_steps) (PyObj (Vector [2007]))"
    by (simp add: p_three_steps_eq p_window_def only_older_def py_range_def)
  have ps: "p_sample int64_numpy p_three_steps 3 (\<lambda>k. k) = Inr ?pb"
    by code_simp
  note T = sample_draws_from_newest_window[where st = ?st and batch_size = 4 and rng = "\<lambda>k. k"
      and b = ?b and v = "Vector [2007]" and np = int64_numpy]
  note PT = sample_draws_from_newest_window[where pst = p_three_steps and batch_size = 3
      and rng = "\<lambda>k. k" and pb = ?pb and pv = "PyObj (Vector [2007])" and np = int64_numpy]
  have f1: "Vector [2007] \<notin> set (state ?b)"
    by (rule T[THEN conjunct1, THEN mp, OF conjI[OF a n], THEN conjunct2, THEN mp, OF s,
          THEN conjunct2, THEN conjunct1, THEN mp, OF old])
  have f2: "PyObj (Vector [2007]) \<notin> set (image ?pb)"
    by (rule PT[THEN conjunct2, THEN conjunct1, THEN mp, OF conjI[OF pa pn], THEN conjunct2,
          THEN mp, OF ps, THEN conjunct2, THEN conjunct1, THEN mp, OF pold])
  show ?thesis by (intro conjI a n k o s f1 pa pn ps f2)
qed

text \<open>
  Claim C6 does not hold for every non-empty pool. numpy must be able to stack the
  pooled values and to index the stacked observations with \<^verbatim>\<open>[sample_index, :]\<close>: in
  a buffer whose only transition has scalar observations the pool has one row, and
  \<^verbatim>\<open>sample\<close> raises IndexError because the stacked observations have no second axis.
  And the indices are drawn from the pool of rewards, so the other pools must be as
  long: after a \<^verbatim>\<open>store\<close> that failed for want of a done flag, the pool of rewards
  has one row, the pool of done flags has none, and \<^verbatim>\<open>sample\<close> raises ValueError.
\<close>

theorem sample_fails_on_scalar_observations_counterexample:
  "aligned scalar_obs
   \<and> pool (window scalar_obs) (buffer_rewards scalar_obs) (num_scenario scalar_obs) = [Scalar 5]
   \<and> pool (window scalar_obs) (buffer_obs scalar_obs) (num_scenario scalar_obs) = [Scalar 3]
   \<and> sample int64_numpy scalar_obs 1 id = Inl IndexError
   \<and> pool (window cut_short) (buffer_rewards cut_short) (num_scenario cut_short) = [Scalar 1]
   \<and> pool (window cut_short) (buffer_dones cut_short) (num_scenario cut_short) = []
   \<and> sample int64_numpy cut_short 1 id = Inl ValueError"
  by code_simp

text \<open>
  Claim C6, as far as it holds. In an aligned buffer with a non-zero number of scenario
  slots and a non-empty pool whose values numpy can stack (in each returned field the
  pooled values have one shape, and the observations and next observations are not
  scalars), \<^verbatim>\<open>sample\<close> returns a batch of exactly \<open>batch_size\<close> rows in each of its
  five fields. The action rows are taken from the pooled ego actions when the mode is
  \<^verbatim>\<open>'train_agent'\<close> and from the pooled scenario actions for any other mode. With the
  same stored contents and the same generator, changing the mode changes nothing but
  the field the action rows come from.
\<close>

theorem sample_batch_size_and_mode:
  assumes "aligned st" and "num_scenario st \<noteq> 0"
    and "pool (window st) (buffer_rewards st) (num_scenario st) \<noteq> []"
    and "stackable np st"
  shows "\<exists>b. sample np st batch_size rng = Inr b
     \<and> length (action b) = batch_size \<and> length (state b) = batch_size
     \<and> length (n_state b) = batch_size \<and> length (reward b) = batch_size
     \<and> length (done_rows b) = batch_size
     \<and> action b = rows (pool (window st)
                   (if mode st = ''train_agent'' then buffer_ego_actions st
                    else buffer_scenario_actions st) (num_scenario st))
                 (draws rng (length (pool (window st) (buffer_rewards st) (num_scenario st)))
                    batch_size)
     \<and> (\<forall>m. stackable np (st\<lparr>mode := m\<rparr>) \<longrightarrow>
          (\<exists>b'. sample np (st\<lparr>mode := m\<rparr>) batch_size rng = Inr b'
            \<and> state b' = state b \<and> n_state b' = n_state b
            \<and> reward b' = reward b \<and> done_rows b' = done_rows b
            \<and> action b' = rows (pool (window st)
                   (if m = ''train_agent'' then buffer_ego_actions st
                    else buffer_scenario_actions st) (num_scenario st))
                 (draws rng (length (pool (window st) (buffer_rewards st) (num_scenario st)))
                    batch_size)))"
proof -
  have am: "aligned (st\<lparr>mode := m\<rparr>)" for m
    using assms(1) by (simp add: aligned_def shaped_def)
  have nm: "num_scenario (st\<lparr>mode := m\<rparr>) \<noteq> 0" for m
    using assms(2) by simp
  have wm: "window (st\<lparr>mode := m\<rparr>) = window st" for m
    by (simp add: window_def)
  have pm: "pool (window (st\<lparr>mode := m\<rparr>)) (buffer_rewards (st\<lparr>mode := m\<rparr>))
              (num_scenario (st\<lparr>mode := m\<rparr>)) \<noteq> []" for m
    using assms(3) by (simp add: wm)
  show ?thesis
    using sample_ok[OF assms, of batch_size rng]
      sample_ok[OF am nm pm, where batch_size = batch_size and rng = rng]
    by (simp add: Let_def wm length_draws length_rows action_field_def)
qed

theorem sample_batch_size_and_mode_witness:
  "aligned (three_steps ''train_agent'') \<and> num_scenario (three_steps ''train_agent'') \<noteq> 0
   \<and> pool (window (three_steps ''train_agent'')) (buffer_rewards (three_steps ''train_agent''))
        (num_scenario (three_steps ''train_agent'')) \<noteq> []
   \<and> stackable int64_numpy (three_steps ''train_agent'')
   \<and> (\<exists>b. sample int64_numpy (three_steps ''train_agent'') 4 (\<lambda>k. k) = Inr b
          \<and> length (action b) = 4)
   \<and> sample int64_numpy (three_steps ''train_agent'') 4 (\<lambda>k. k) =
        Inr \<lparr>action = [Vector [8], Vector [9], Vector [8], Vector [9]],
             state = [Vector [2008], Vector [2009], Vector [2008], Vector [2009]],
             n_state = [Vector [3008], Vector [3009], Vector [3008], Vector [3009]],
             reward = [Scalar 8, Scalar 9, Scalar 8, Scalar 9],
             done_rows = [Scalar 0, Scalar 0, Scalar 0, Scalar 0]\<rparr>
   \<and> sample int64_numpy (three_steps ''eval'') 4 (\<lambda>k. k) =
        Inr \<lparr>action = [Vector [1008], Vector [1009], Vector [1008], Vector [1009]],
             state = [Vector [2008], Vector [2009], Vector [2008], Vector [2009]],
             n_state = [Vector [3008], Vector [3009], Vector [3008], Vector [3009]],
             reward = [Scalar 8, Scalar 9, Scalar 8, Scalar 9],
             done_rows = [Scalar 0, Scalar 0, Scalar 0, Scalar 0]\<rparr>"
proof -
  let ?st = "three_steps ''train_agent''"
  have a: "aligned ?st"
    by (simp add: three_steps_eq aligned_def shaped_def py_range_def)
  have n: "num_scenario ?st \<noteq> 0" by (simp add: three_steps_eq)
  have p: "pool (window ?st) (buffer_rewards ?st) (num_scenario ?st) \<noteq> []"
    by (simp add: three_steps_eq window_def pool_def newest_def py_range_def)
  have k: "stackable int64_numpy ?st" by code_simp
  have s: "sample int64_numpy ?st 4 (\<lambda>k. k) =
        Inr \<lparr>action = [Vector [8], Vector [9], Vector [8], Vector [9]],
             state = [Vector [2008], Vector [2009], Vector [2008], Vector [2009]],
             n_state = [Vector [3008], Vector [3009], Vector [3008], Vector [3009]],
             reward = [Scalar 8, Scalar 9, Scalar 8, Scalar 9],
             done_rows = [Scalar 0, Scalar 0, Scalar 0, Scalar 0]\<rparr>"
    by code_simp
  have s': "sample int64_numpy (three_steps ''eval'') 4 (\<lambda>k. k) =
        Inr \<lparr>action = [Vector [1008], Vector [1009], Vector [1008], Vector [1009]],
             state = [Vector [2008], Vector [2009], Vector [2008], Vector [2009]],
             n_state = [Vector [3008], Vector [3009], Vector [3008], Vector [3009]],
             reward = [Scalar 8, Scalar 9, Scalar 8, Scalar 9],
             done_rows = [Scalar 0, Scalar 0, Scalar 0, Scalar 0]\<rparr>"
    by code_simp
  from sample_batch_size_and_mode[OF a n p k, of 4 "\<lambda>k. k"]
  have e: "\<exists>b. sample int64_numpy ?st 4 (\<lambda>k. k) = Inr b \<and> length (action b) = 4" by blast
  show ?thesis by (intro conjI a n p k e s s')
qed

section \<open>Extra columns\<close>

text \<open>
  Claim C4. The claim does not hold of the code: \<^verbatim>\<open>store\<close> selects the six main
  buckets with the tagged scenario id \<open>sid\<close>, but the extra map with the position
  \<open>s_i\<close> of the entry in the batch (\<^verbatim>\<open>self.buffer_additional_dict[s_i]\<close>). A single
  transition tagged with scenario id 1 and cost 5, stored into a fresh buffer of two
  scenario slots, lands in bucket 1 of the main fields, while its cost lands in the
  extra map of scenario id 0, which holds no transition. With one scenario slot and a
  batch of two transitions for scenario id 0, the second position has no extra map at
  all: the call raises IndexError after both transitions and the first cost are stored.
\<close>

theorem store_extra_column_follows_position:
  "buffer_rewards (snd (store (ReplayBuffer 2 ''train_agent'' 1000) (cost_step 3) [cost_tag 1 5]))
     = [[], [Scalar 3]]
   \<and> buffer_additional_dict
       (snd (store (ReplayBuffer 2 ''train_agent'' 1000) (cost_step 3) [cost_tag 1 5]))
     = [[(''cost'', [PyObj (Scalar 5)])], []]
   \<and> fst (store (ReplayBuffer 2 ''train_agent'' 1000) (cost_step 3) [cost_tag 1 5]) = None
   \<and> store (ReplayBuffer 1 ''train_agent'' 1000)
        [Seq [Scalar 0, Scalar 1], Seq [Scalar 0, Scalar 1], Seq [Scalar 0, Scalar 1],
         Seq [Scalar 0, Scalar 1], Seq [Scalar 3, Scalar 4], Seq [Scalar 0, Scalar 0]]
        [cost_tag 0 5, cost_tag 0 6]
     = (Some IndexError,
        (ReplayBuffer 1 ''train_agent'' 1000)
          \<lparr>buffer_len := 2, buffer_ego_actions := [[Scalar 0, Scalar 1]],
           buffer_scenario_actions := [[Scalar 0, Scalar 1]],
           buffer_obs := [[Scalar 0, Scalar 1]], buffer_next_obs := [[Scalar 0, Scalar 1]],
           buffer_rewards := [[Scalar 3, Scalar 4]],
           buffer_dones := [[Scalar 0, Scalar 0]],
           buffer_additional_dict := [[(''cost'', [PyObj (Scalar 5)])]]\<rparr>)"
  by (simp add: cost_step_def cost_tag_def ReplayBuffer_def reset_buffer_def
      reset_init_buffer_def store_def read_fields_def field_len_def field_item_def
      store_step_def store_fields_def append_at_def
      getitem_def list_index_def dict_get_def dict_append_def py_range_def Let_def upt_rec)

section \<open>What a failing call leaves behind\<close>

lemma grown_refl: "grown buf buf"
  by (simp add: grown_def list_all2_refl)

lemma grown_trans:
  assumes "grown a b" and "grown b c"
  shows "grown a c"
proof -
  have "prefix x z" if "prefix x y" "prefix y z" for x y z :: "'a list"
    using that by (rule prefix_order.trans)
  from list_all2_trans[of prefix prefix prefix, OF this] assms show ?thesis
    by (simp add: grown_def)
qed

lemma grown_update: "j < length buf \<Longrightarrow> grown buf (buf[j := buf ! j @ [v]])"
  by (auto simp: grown_def list_all2_conv_all_nth nth_list_update)

lemma append_at_grown: "append_at buf sid f s_i = Inr buf' \<Longrightarrow> grown buf buf'"
  by (auto simp: append_at_def grown_update split: sum.splits dest: list_index_Inr)

lemma store_frame_refl: "store_frame st st"
  by (simp add: store_frame_def grown_refl)

lemma store_frame_trans:
  assumes "store_frame a b" and "store_frame b c"
  shows "store_frame a c"
  using assms grown_trans[of "buffer_ego_actions a" "buffer_ego_actions b" "buffer_ego_actions c"]
    grown_trans[of "buffer_scenario_actions a" "buffer_scenario_actions b" "buffer_scenario_actions c"]
    grown_trans[of "buffer_obs a" "buffer_obs b" "buffer_obs c"]
    grown_trans[of "buffer_next_obs a" "buffer_next_obs b" "buffer_next_obs c"]
    grown_trans[of "buffer_rewards a" "buffer_rewards b" "buffer_rewards c"]
    grown_trans[of "buffer_dones a" "buffer_dones b" "buffer_dones c"]
  by (simp add: store_frame_def)

lemma store_fields_frame: "store_frame st (snd (store_fields st dl sid s_i))"
  unfolding store_fields_def Let_def
  by (simp add: store_frame_def grown_refl append_at_grown split: sum.split)


lemma store_extras_store_frame: "store_frame st (snd (store_extras st s_i items))"
  using store_extras_frame[of st s_i items] by (auto simp: store_frame_def grown_refl)

lemma store_fields_buffer_len: "buffer_len (snd (store_fields st dl sid s_i)) = buffer_len st"
  unfolding store_fields_def Let_def by (simp split: sum.split)

lemma store_extras_buffer_len: "buffer_len (snd (store_extras st s_i items)) = buffer_len st"
  using store_extras_frame[of st s_i items] by auto

lemma store_step_frame:
  "store_frame st (snd (store_step st dl tags s_i))
   \<and> buffer_len (snd (store_step st dl tags s_i)) = buffer_len st"
proof (cases "\<exists>tag sid. getitem tags (int s_i) = Inr tag
    \<and> dict_get tag ''scenario_id'' = Inr (PyInt sid)")
  case False
  then have "snd (store_step st dl tags s_i) = st"
    by (auto simp: store_step_def split: sum.splits pyval.splits)
  then show ?thesis by (simp add: store_frame_refl)
next
  case True
  then obtain tag sid where t: "getitem tags (int s_i) = Inr tag"
    "dict_get tag ''scenario_id'' = Inr (PyInt sid)" by blast
  obtain r st' where f: "store_fields st dl sid s_i = (r, st')" by (cases "store_fields st dl sid s_i")
  from store_fields_frame[of st dl sid s_i] store_fields_buffer_len[of st dl sid s_i] f
  have st': "store_frame st st'" "buffer_len st' = buffer_len st" by simp_all
  show ?thesis
  proof (cases r)
    case (Some e)
    with t f st' show ?thesis by (simp add: store_step_def)
  next
    case None
    with t f have "store_step st dl tags s_i = store_extras st' s_i tag"
      by (simp add: store_step_def)
    with st'(2) store_frame_trans[OF st'(1) store_extras_store_frame[of st' s_i tag]]
      store_extras_buffer_len[of st' s_i tag]
    show ?thesis by simp
  qed
qed

lemma store_loop_frame:
  "store_frame st (snd (store_loop st dl tags ss))
   \<and> buffer_len (snd (store_loop st dl tags ss)) = buffer_len st"
proof (induction ss arbitrary: st)
  case Nil
  show ?case by (simp add: store_frame_refl)
next
  case (Cons s_i ss)
  obtain r st' where f: "store_step st dl tags s_i = (r, st')"
    by (cases "store_step st dl tags s_i")
  with store_step_frame[of st dl tags s_i]
  have st': "store_frame st st'" "buffer_len st' = buffer_len st" by simp_all
  show ?case
  proof (cases r)
    case (Some e)
    with f st' show ?thesis by simp
  next
    case None
    with f have "store_loop st dl tags (s_i # ss) = store_loop st' dl tags ss" by simp
    with st'(2) Cons.IH[of st'] store_frame_trans[OF st'(1), of "snd (store_loop st' dl tags ss)"]
    show ?thesis by simp
  qed
qed


lemma store_early:
  "length data_list < 6 \<Longrightarrow> store st data_list tags = (Some IndexError, st)"
  "6 \<le> length data_list \<Longrightarrow> field_len (data_list ! 4) = Inl e \<Longrightarrow>
     store st data_list tags = (Some e, st)"
  by (simp_all add: store_def read_fields_eq fields_of_def)

lemma store_frame_store:
  assumes "6 \<le> length data_list" and "field_len (data_list ! 4) = Inr k"
  shows "store_frame st (snd (store st data_list tags))"
    and "buffer_len (snd (store st data_list tags)) = buffer_len st + int k"
proof -
  let ?st0 = "st\<lparr>buffer_len := buffer_len st + int k\<rparr>"
  have f0: "store_frame st ?st0" by (simp add: store_frame_def grown_refl)
  note l = store_loop_frame[of ?st0 "fields_of data_list" tags "py_range (int (length tags))"]
  have s: "store st data_list tags =
             store_loop ?st0 (fields_of data_list) tags (py_range (int (length tags)))"
    using assms by (simp add: store_def read_fields_eq fields_of_def)
  from store_frame_trans[OF f0 l[THEN conjunct1]]
  show "store_frame st (snd (store st data_list tags))" by (simp add: s)
  from l[THEN conjunct2]
  show "buffer_len (snd (store st data_list tags)) = buffer_len st + int k"
    by (simp add: s)
qed

lemma store_init_cases:
  "length data_list < 2 \<Longrightarrow> store_init st data_list ad = (Some IndexError, st)"
  "2 \<le> length data_list \<Longrightarrow> field_len (data_list ! 1) = Inl e \<Longrightarrow>
     store_init st data_list ad =
       (Some e, st\<lparr>buffer_static_obs := buffer_static_obs st @ [data_list ! 0],
                    buffer_init_action := buffer_init_action st @ [data_list ! 1]\<rparr>)"
  "2 \<le> length data_list \<Longrightarrow> field_len (data_list ! 1) = Inr k \<Longrightarrow>
     fst (store_init st data_list ad) = None
     \<and> init_buffer_len (snd (store_init st data_list ad)) = init_buffer_len st + int k
     \<and> buffer_static_obs (snd (store_init st data_list ad)) = buffer_static_obs st @ [data_list ! 0]
     \<and> buffer_init_action (snd (store_init st data_list ad))
         = buffer_init_action st @ [data_list ! 1]"
  by (auto simp: store_init_def getitem_def list_index_def Let_def split: option.splits)

lemma p_store_arity:
  "length data_list \<noteq> 4 \<Longrightarrow> p_store st data_list = (Some AssertionError, st)"
  by (auto simp: p_store_def split: list.splits)

lemma p_store_no_length:
  "length data_list = 4 \<Longrightarrow> field_len (data_list ! 3) = Inl e \<Longrightarrow>
     p_store st data_list = (Some e, st)"
  by (auto simp: p_store_def split: list.splits)

text \<open>
  Claim C9 does not hold of the code: nothing undoes the assignments made before an
  exception. A \<^verbatim>\<open>store\<close> whose scenario actions are missing raises IndexError after
  \<open>buffer_len\<close> has grown and the ego action is appended; a \<^verbatim>\<open>finish_one_episode\<close>
  on a buffer in which scenario id 0 has a done marker and scenario id 1 has none
  raises IndexError after the episode return of scenario id 0 is appended.
\<close>

theorem failing_call_changes_state_counterexample:
  "store (ReplayBuffer 1 ''train_agent'' 1000) short_batch [id_tag 0] =
     (Some IndexError,
      (ReplayBuffer 1 ''train_agent'' 1000)
        \<lparr>buffer_len := 1, buffer_ego_actions := [[Vector [8]]]\<rparr>)
   \<and> buffer_len (ReplayBuffer 1 ''train_agent'' 1000 :: ndarray replay_buffer) = 0
   \<and> buffer_ego_actions (ReplayBuffer 1 ''train_agent'' 1000 :: ndarray replay_buffer) = [[]]
   \<and> finish_one_episode int64_numpy half_done =
       (Some IndexError, half_done\<lparr>buffer_episode_reward := [Scalar 4]\<rparr>)
   \<and> buffer_episode_reward half_done = []"
  by code_simp

text \<open>
  Claim C9 as amended. A failing call keeps what it has done so far. A \<^verbatim>\<open>store\<close>
  that is given fewer than six fields (IndexError) or rewards without a length
  (TypeError) fails before it has assigned anything. After any other \<^verbatim>\<open>store\<close>, failed
  or not, \<open>buffer_len\<close> has grown by \<^verbatim>\<open>len(rewards)\<close>, every bucket of the six main
  fields is its old self extended at the end, and the configuration, the init-side
  fields and the episode returns are untouched. A failing \<^verbatim>\<open>finish_one_episode\<close>
  fails at the first scenario id \<open>k\<close> without a done marker, with IndexError, and has
  appended the episode returns of the scenario ids before \<open>k\<close> and changed nothing
  else. A \<^verbatim>\<open>store_init\<close> that is given fewer than two fields fails with IndexError and
  changes nothing; one whose initial actions have no length fails with TypeError after
  the static observation and the initial actions have been appended; no other
  \<^verbatim>\<open>store_init\<close> fails. The perception \<^verbatim>\<open>store\<close> that fails its arity check, or whose
  \<^verbatim>\<open>infos\<close> have no length, leaves the buffer as it was. (\<^verbatim>\<open>sample\<close> and
  \<^verbatim>\<open>sample_init\<close> assign nothing: they return a batch or an exception, and no state.)
\<close>

theorem failing_call_keeps_partial_effects:
  "(length data_list < 6 \<longrightarrow> store st data_list tags = (Some IndexError, st))
   \<and> (6 \<le> length data_list \<and> field_len (data_list ! 4) = Inl e \<longrightarrow>
        store st data_list tags = (Some e, st))
   \<and> (6 \<le> length data_list \<and> field_len (data_list ! 4) = Inr k \<longrightarrow>
        store_frame st (snd (store st data_list tags))
      \<and> buffer_len (snd (store st data_list tags)) = buffer_len st + int k)
   \<and> (shaped st \<and> fst (finish_one_episode np st) \<noteq> None \<longrightarrow>
        (\<exists>k < nat (num_scenario st).
           (\<forall>t < k. has_marker np (buffer_dones st ! t))
         \<and> \<not> has_marker np (buffer_dones st ! k)
         \<and> finish_one_episode np st =
             (Some IndexError, st\<lparr>buffer_episode_reward := buffer_episode_reward st @
                map (\<lambda>s. episode_sum np (buffer_rewards st ! s) (buffer_dones st ! s)) [0..<k]\<rparr>)))
   \<and> (length init_list < 2 \<longrightarrow> store_init st init_list ad = (Some IndexError, st))
   \<and> (2 \<le> length init_list \<and> field_len (init_list ! 1) = Inl e \<longrightarrow>
        store_init st init_list ad =
          (Some e, st\<lparr>buffer_static_obs := buffer_static_obs st @ [init_list ! 0],
                       buffer_init_action := buffer_init_action st @ [init_list ! 1]\<rparr>))
   \<and> (2 \<le> length init_list \<and> field_len (init_list ! 1) = Inr k \<longrightarrow>
        fst (store_init st init_list ad) = None)
   \<and> (length p_data_list \<noteq> 4 \<longrightarrow> p_store pst p_data_list = (Some AssertionError, pst))
   \<and> (length p_data_list = 4 \<and> field_len (p_data_list ! 3) = Inl e \<longrightarrow>
        p_store pst p_data_list = (Some e, pst))"
proof (intro conjI impI)
  assume "length data_list < 6"
  then show "store st data_list tags = (Some IndexError, st)" by (rule store_early(1))
next
  assume "6 \<le> length data_list \<and> field_len (data_list ! 4) = Inl e"
  then show "store st data_list tags = (Some e, st)" by (intro store_early(2)) simp_all
next
  assume h: "6 \<le> length data_list \<and> field_len (data_list ! 4) = Inr k"
  then show "store_frame st (snd (store st data_list tags))"
    by (intro store_frame_store(1)[where k = k]) simp_all
  from h show "buffer_len (snd (store st data_list tags)) = buffer_len st + int k"
    by (intro store_frame_store(2)) simp_all
next
  assume h: "shaped st \<and> fst (finish_one_episode np st) \<noteq> None"
  then have "\<not> all_done np st"
    using finish_one_episode_ok[of st np] by auto
  with h finish_one_episode_fail[of st np]
  show "\<exists>k < nat (num_scenario st).
           (\<forall>t < k. has_marker np (buffer_dones st ! t))
         \<and> \<not> has_marker np (buffer_dones st ! k)
         \<and> finish_one_episode np st =
             (Some IndexError, st\<lparr>buffer_episode_reward := buffer_episode_reward st @
                map (\<lambda>s. episode_sum np (buffer_rewards st ! s) (buffer_dones st ! s)) [0..<k]\<rparr>)"
    by blast
next
  assume "length init_list < 2"
  then show "store_init st init_list ad = (Some IndexError, st)" by (rule store_init_cases(1))
next
  assume "2 \<le> length init_list \<and> field_len (init_list ! 1) = Inl e"
  then show "store_init st init_list ad =
          (Some e, st\<lparr>buffer_static_obs := buffer_static_obs st @ [init_list ! 0],
                       buffer_init_action := buffer_init_action st @ [init_list ! 1]\<rparr>)"
    by (intro store_init_cases(2)) simp_all
next
  assume "2 \<le> length init_list \<and> field_len (init_list ! 1) = Inr k"
  then show "fst (store_init st init_list ad) = None"
    using store_init_cases(3)[of init_list k st ad] by simp
next
  assume "length p_data_list \<noteq> 4"
  then show "p_store pst p_data_list = (Some AssertionError, pst)" by (rule p_store_arity)
next
  assume "length p_data_list = 4 \<and> field_len (p_data_list ! 3) = Inl e"
  then show "p_store pst p_data_list = (Some e, pst)" by (intro p_store_no_length) simp_all
qed

theorem failing_call_keeps_partial_effects_witness:
  "length five_fields < 6
   \<and> store half_done five_fields [id_tag 0] = (Some IndexError, half_done)
   \<and> 6 \<le> length short_batch \<and> field_len (short_batch ! 4) = Inr 1
   \<and> fst (store half_done short_batch [id_tag 0]) = Some IndexError
   \<and> buffer_len (snd (store half_done short_batch [id_tag 0])) = buffer_len half_done + 1
   \<and> store_frame half_done (snd (store half_done short_batch [id_tag 0]))
   \<and> shaped half_done \<and> fst (finish_one_episode int64_numpy half_done) \<noteq> None
   \<and> (\<exists>k < 2. finish_one_episode int64_numpy half_done =
         (Some IndexError, half_done\<lparr>buffer_episode_reward := buffer_episode_reward half_done @
            map (\<lambda>s. episode_sum int64_numpy (buffer_rewards half_done ! s)
                        (buffer_dones half_done ! s))
              [0..<k]\<rparr>))
   \<and> length [Seq [Scalar 1]] < 2
   \<and> store_init half_done [Seq [Scalar 1]] None = (Some IndexError, half_done)
   \<and> 2 \<le> length [Seq [Scalar 1], Obj (Scalar 2)]
   \<and> field_len ([Seq [Scalar 1], Obj (Scalar 2)] ! 1) = Inl TypeError
   \<and> store_init half_done [Seq [Scalar 1], Obj (Scalar 2)] None =
       (Some TypeError, half_done\<lparr>buffer_static_obs := [Seq [Scalar 1]],
                                  buffer_init_action := [Obj (Scalar 2)]\<rparr>)
   \<and> length [Seq [], Seq [], Seq [] :: (string, ndarray pyval) pydict field] \<noteq> 4
   \<and> p_store (ReplayBuffer_Perception 1 ''train_agent'' 10) [Seq [], Seq [], Seq []]
       = (Some AssertionError,
          ReplayBuffer_Perception 1 ''train_agent'' 10 :: ndarray perception_buffer)"
proof -
  let ?il = "[Seq [Scalar 1], Obj (Scalar 2)]"
  let ?pl = "[Seq [], Seq [], Seq [] :: (string, ndarray pyval) pydict field]"
  have l5: "length five_fields < 6" by code_simp
  have l6: "6 \<le> length short_batch" by code_simp
  have r6: "field_len (short_batch ! 4) = Inr 1" by code_simp
  have e6: "fst (store half_done short_batch [id_tag 0]) = Some IndexError" by code_simp
  have h: "shaped half_done" by code_simp
  have f: "fst (finish_one_episode int64_numpy half_done) \<noteq> None" by code_simp
  have n: "nat (num_scenario half_done) = 2" by code_simp
  have i1: "length [Seq [Scalar 1]] < 2" by simp
  have i2: "2 \<le> length ?il" by simp
  have i3: "field_len (?il ! 1) = Inl TypeError" by (simp add: field_len_def)
  have b0: "buffer_static_obs half_done = []" "buffer_init_action half_done = []" by code_simp+
  have l: "length ?pl \<noteq> 4" by simp
  note T1 = failing_call_keeps_partial_effects[where st = half_done and data_list = five_fields
      and tags = "[id_tag 0]" and init_list = "[Seq [Scalar 1]]" and ad = None and p_data_list = ?pl
      and pst = "ReplayBuffer_Perception 1 ''train_agent'' 10 :: ndarray perception_buffer"
      and np = int64_numpy]
  note T2 = failing_call_keeps_partial_effects[where st = half_done and data_list = short_batch
      and tags = "[id_tag 0]" and k = 1 and init_list = ?il and ad = None and e = TypeError]
  have a1: "store half_done five_fields [id_tag 0] = (Some IndexError, half_done)"
    by (rule T1[THEN conjunct1, THEN mp, OF l5])
  have a2: "store_frame half_done (snd (store half_done short_batch [id_tag 0]))
      \<and> buffer_len (snd (store half_done short_batch [id_tag 0])) = buffer_len half_done + int 1"
    by (rule T2[THEN conjunct2, THEN conjunct2, THEN conjunct1, THEN mp, OF conjI[OF l6 r6]])
  then have a3: "buffer_len (snd (store half_done short_batch [id_tag 0])) = buffer_len half_done + 1"
    and a4: "store_frame half_done (snd (store half_done short_batch [id_tag 0]))"
    by simp_all
  have "\<exists>k < nat (num_scenario half_done).
           (\<forall>t < k. has_marker int64_numpy (buffer_dones half_done ! t))
         \<and> \<not> has_marker int64_numpy (buffer_dones half_done ! k)
         \<and> finish_one_episode int64_numpy half_done =
         (Some IndexError, half_done\<lparr>buffer_episode_reward := buffer_episode_reward half_done @
            map (\<lambda>s. episode_sum int64_numpy (buffer_rewards half_done ! s)
                        (buffer_dones half_done ! s))
              [0..<k]\<rparr>)"
    by (rule T1[THEN conjunct2, THEN conjunct2, THEN conjunct2, THEN conjunct1, THEN mp,
          OF conjI[OF h f]])
  then have e: "\<exists>k < 2. finish_one_episode int64_numpy half_done =
         (Some IndexError, half_done\<lparr>buffer_episode_reward := buffer_episode_reward half_done @
            map (\<lambda>s. episode_sum int64_numpy (buffer_rewards half_done ! s)
                        (buffer_dones half_done ! s))
              [0..<k]\<rparr>)"
    unfolding n by blast
  have s1: "store_init half_done [Seq [Scalar 1]] None = (Some IndexError, half_done)"
    by (rule T1[THEN conjunct2, THEN conjunct2, THEN conjunct2, THEN conjunct2, THEN conjunct1,
          THEN mp, OF i1])
  have "store_init half_done ?il None =
       (Some TypeError, half_done\<lparr>buffer_static_obs := buffer_static_obs half_done @ [?il ! 0],
                                  buffer_init_action := buffer_init_action half_done @ [?il ! 1]\<rparr>)"
    by (rule T2[THEN conjunct2, THEN conjunct2, THEN conjunct2, THEN conjunct2, THEN conjunct2,
          THEN conjunct1, THEN mp, OF conjI[OF i2 i3]])
  then have s2: "store_init half_done ?il None =
       (Some TypeError, half_done\<lparr>buffer_static_obs := [Seq [Scalar 1]],
                                  buffer_init_action := [Obj (Scalar 2)]\<rparr>)"
    by (simp add: b0)
  have p: "p_store (ReplayBuffer_Perception 1 ''train_agent'' 10) ?pl
       = (Some AssertionError,
          ReplayBuffer_Perception 1 ''train_agent'' 10 :: ndarray perception_buffer)"
    by (rule T1[THEN conjunct2, THEN conjunct2, THEN conjunct2, THEN conjunct2, THEN conjunct2,
          THEN conjunct2, THEN conjunct2, THEN conjunct1, THEN mp, OF l])
  show ?thesis by (intro conjI l5 a1 l6 r6 e6 a3 a4 h f e i1 s1 i2 i3 s2 l p)
qed

section \<open>When the store operations fail\<close>

lemma field_item_Inr: "field_item f (int s_i) = Inr v \<Longrightarrow> has_item f s_i"
  by (auto simp: field_item_def has_item_def getitem_nat split: field.splits if_splits)

lemma field_item_Inl: "is_seq f \<Longrightarrow> field_item f i = Inl e \<Longrightarrow> e = IndexError"
  by (auto simp: field_item_def is_seq_def split: field.splits dest: getitem_Inl)

lemma append_at_Inr_item: "append_at buf sid f s_i = Inr b \<Longrightarrow> has_item f s_i"
  by (auto simp: append_at_def split: sum.splits dest: field_item_Inr)

lemma append_at_Inl: "is_seq f \<Longrightarrow> append_at buf sid f s_i = Inl e \<Longrightarrow> e = IndexError"
  by (auto simp: append_at_def split: sum.splits dest: field_item_Inl list_index_Inl)

lemma store_fields_None:
  assumes "fst (store_fields st dl sid s_i) = None"
  shows "all_items dl s_i"
  using assms unfolding store_fields_def Let_def all_items_def
  by (simp split: sum.splits add: append_at_Inr_item)

lemma store_fields_Some:
  assumes "fst (store_fields st dl sid s_i) = Some e"
    and "is_seq (ego_actions dl)" "is_seq (scenario_actions dl)" "is_seq (obs dl)"
      "is_seq (next_obs dl)" "is_seq (rewards dl)" "is_seq (dones dl)"
  shows "e = IndexError"
  using assms unfolding store_fields_def Let_def
  by (simp split: sum.splits add: append_at_Inl)

lemma store_extras_Some: "fst (store_extras st s_i items) = Some e \<Longrightarrow> e = IndexError"
proof (induction items arbitrary: st)
  case Nil
  then show ?case by simp
next
  case (Cons kv items)
  obtain key v where kv: "kv = (key, v)" by (cases kv)
  show ?case
  proof (cases "key = ''scenario_id''")
    case True
    with kv Cons show ?thesis by simp
  next
    case False
    show ?thesis
    proof (cases "getitem (buffer_additional_dict st) (int s_i)")
      case (Inl e')
      with kv False Cons.prems show ?thesis by (simp add: getitem_nat split: if_splits)
    next
      case (Inr d)
      with kv False Cons.prems Cons.IH show ?thesis by simp
    qed
  qed
qed

lemma store_step_None:
  assumes "fst (store_step st dl tags s_i) = None"
  shows "all_items dl s_i"
proof -
  obtain tag where t: "getitem tags (int s_i) = Inr tag"
    using assms by (cases "getitem tags (int s_i)") (simp_all add: store_step_def)
  obtain sid where sid: "dict_get tag ''scenario_id'' = Inr (PyInt sid)"
    using assms t by (auto simp: store_step_def split: sum.splits pyval.splits)
  have "fst (store_fields st dl sid s_i) = None"
    using assms t sid
    by (cases "store_fields st dl sid s_i") (auto simp: store_step_def split: option.splits)
  then show ?thesis by (rule store_fields_None)
qed

lemma store_loop_None:
  assumes "fst (store_loop st dl tags ss) = None" and "s_i \<in> set ss"
  shows "all_items dl s_i"
  using assms
proof (induction ss arbitrary: st)
  case Nil
  then show ?case by simp
next
  case (Cons x ss)
  obtain r st' where f: "store_step st dl tags x = (r, st')" by (cases "store_step st dl tags x")
  with Cons.prems(1) have r: "r = None" by (cases r) simp_all
  with f Cons.prems(1) have l: "fst (store_loop st' dl tags ss) = None" by simp
  show ?case
  proof (cases "s_i = x")
    case True
    from f r have "fst (store_step st dl tags x) = None" by simp
    from store_step_None[OF this] True show ?thesis by simp
  next
    case False
    with Cons.prems(2) have "s_i \<in> set ss" by simp
    from Cons.IH[OF l this] show ?thesis .
  qed
qed

lemma too_short_no_item: "too_short (Suc s_i) f \<Longrightarrow> \<not> has_item f s_i"
  by (auto simp: too_short_def has_item_def split: field.splits)

lemma store_short_field_fails:
  assumes "6 \<le> length data_list" and "list_ex (too_short (length tags)) (take 6 data_list)"
  shows "fst (store st data_list tags) \<noteq> None"
proof
  assume n: "fst (store st data_list tags) = None"
  from assms obtain k where k: "k < 6" "too_short (length tags) (data_list ! k)"
    by (auto simp: list_ex_length)
  then have pos: "0 < length tags"
    by (auto simp: too_short_def split: field.splits)
  then have m: "length tags - 1 \<in> set (py_range (int (length tags)))" by (simp add: py_range_set)
  obtain len where len: "field_len (data_list ! 4) = Inr len"
    using n assms(1) store_early(2)[OF assms(1), of _ st tags]
    by (cases "field_len (data_list ! 4)") auto
  have s: "store st data_list tags =
             store_loop (st\<lparr>buffer_len := buffer_len st + int len\<rparr>) (fields_of data_list) tags
               (py_range (int (length tags)))"
    using assms(1) len by (simp add: store_def read_fields_eq fields_of_def)
  from store_loop_None[OF n[unfolded s] m]
  have "all_items (fields_of data_list) (length tags - 1)" .
  then have "has_item (data_list ! j) (length tags - 1)" if "j < 6" for j
  proof -
    from that have "j = 0 \<or> j = 1 \<or> j = 2 \<or> j = 3 \<or> j = 4 \<or> j = 5" by auto
    with \<open>all_items (fields_of data_list) (length tags - 1)\<close> show ?thesis
      by (auto simp: all_items_def fields_of_def)
  qed
  from this[OF k(1)] too_short_no_item[of "length tags - 1" "data_list ! k"] k(2) pos
  show False by simp
qed

lemma int_id_lookup:
  assumes "int_ids tags" and "getitem tags (int s_i) = Inr tag"
    and "dict_get tag ''scenario_id'' = r"
  shows "\<exists>sid. r = Inr (PyInt sid)"
proof -
  from assms(2) have "s_i < length tags" "tag = tags ! s_i"
    by (auto simp: getitem_nat split: if_splits)
  with assms(1) have "case map_of tag ''scenario_id'' of Some (PyInt sid) \<Rightarrow> True | _ \<Rightarrow> False"
    by (simp add: int_ids_def list_all_length)
  with assms(3) show ?thesis
    by (auto simp: dict_get_def split: option.splits pyval.splits)
qed

lemma store_step_Some:
  assumes "int_ids tags" and "fst (store_step st dl tags s_i) = Some e"
    and "is_seq (ego_actions dl)" "is_seq (scenario_actions dl)" "is_seq (obs dl)"
      "is_seq (next_obs dl)" "is_seq (rewards dl)" "is_seq (dones dl)"
  shows "e = IndexError"
proof (cases "getitem tags (int s_i)")
  case (Inl e')
  with assms(2) show ?thesis by (simp add: store_step_def getitem_nat split: if_splits)
next
  case (Inr tag)
  from int_id_lookup[OF assms(1) Inr refl] obtain sid where
    sid: "dict_get tag ''scenario_id'' = Inr (PyInt sid)" by blast
  obtain r st' where f: "store_fields st dl sid s_i = (r, st')"
    by (cases "store_fields st dl sid s_i")
  show ?thesis
  proof (cases r)
    case None
    with Inr sid f assms(2) have "fst (store_extras st' s_i tag) = Some e"
      by (simp add: store_step_def)
    then show ?thesis by (rule store_extras_Some)
  next
    case (Some e')
    with Inr sid f assms(2) have "fst (store_fields st dl sid s_i) = Some e"
      by (simp add: store_step_def)
    then show ?thesis using assms(3-) by (rule store_fields_Some)
  qed
qed

lemma store_loop_Some:
  assumes "int_ids tags" and "fst (store_loop st dl tags ss) = Some e"
    and "is_seq (ego_actions dl)" "is_seq (scenario_actions dl)" "is_seq (obs dl)"
      "is_seq (next_obs dl)" "is_seq (rewards dl)" "is_seq (dones dl)"
  shows "e = IndexError"
  using assms(2)
proof (induction ss arbitrary: st)
  case Nil
  then show ?case by simp
next
  case (Cons x ss)
  obtain r st' where f: "store_step st dl tags x = (r, st')" by (cases "store_step st dl tags x")
  show ?case
  proof (cases r)
    case None
    with f Cons.prems have "fst (store_loop st' dl tags ss) = Some e" by simp
    then show ?thesis by (rule Cons.IH)
  next
    case (Some e')
    with f Cons.prems have "fst (store_step st dl tags x) = Some e" by simp
    from store_step_Some[OF assms(1) this assms(3-)] show ?thesis .
  qed
qed

lemma six_seqs:
  assumes "6 \<le> length data_list" and "list_all is_seq (take 6 data_list)"
  shows "is_seq (ego_actions (fields_of data_list))"
    "is_seq (scenario_actions (fields_of data_list))" "is_seq (obs (fields_of data_list))"
    "is_seq (next_obs (fields_of data_list))" "is_seq (rewards (fields_of data_list))"
    "is_seq (dones (fields_of data_list))"
  using assms by (auto simp: list_all_length fields_of_def)

lemma store_Some:
  assumes "6 \<le> length data_list" and "list_all is_seq (take 6 data_list)"
    and "int_ids tags" and "fst (store st data_list tags) = Some e"
  shows "e = IndexError"
proof -
  note q = six_seqs[OF assms(1,2)]
  from q(5) obtain len where len: "field_len (data_list ! 4) = Inr len"
    by (auto simp: is_seq_def field_len_def fields_of_def split: field.splits)
  have s: "store st data_list tags =
             store_loop (st\<lparr>buffer_len := buffer_len st + int len\<rparr>) (fields_of data_list) tags
               (py_range (int (length tags)))"
    using assms(1) len by (simp add: store_def read_fields_eq fields_of_def)
  from store_loop_Some[OF assms(3) assms(4)[unfolded s] q] show ?thesis .
qed

subsection \<open>The effect of a store that runs through\<close>

lemma grown_length: "grown a b \<Longrightarrow> length b = length a"
  by (simp add: grown_def list_all2_lengthD)

lemma shaped_frame: "store_frame st st' \<Longrightarrow> shaped st \<Longrightarrow> shaped st'"
  by (auto simp: store_frame_def shaped_def dest: grown_length)

lemma sid_ok_lookup:
  assumes "sid_ok n tag"
  shows "\<exists>sid. dict_get tag ''scenario_id'' = Inr (PyInt sid) \<and> - n \<le> sid \<and> sid < n
            \<and> list_index (nat n) sid = Inr (bucket_of n tag) \<and> bucket_of n tag < nat n"
proof -
  from assms obtain sid where m: "map_of tag ''scenario_id'' = Some (PyInt sid)"
    and r: "- n \<le> sid" "sid < n"
    by (auto simp: sid_ok_def split: option.splits pyval.splits)
  have d: "dict_get tag ''scenario_id'' = Inr (PyInt sid)"
    using m by (simp add: dict_get_def)
  have b: "bucket_of n tag = (if 0 \<le> sid then nat sid else nat (n + sid))"
    using m by (simp add: bucket_of_def)
  from r have n: "int (nat n) = n" by simp
  have l: "list_index (nat n) sid = Inr (bucket_of n tag)"
    unfolding list_index_def n b using r by simp
  have "bucket_of n tag < nat n"
    unfolding b using r by (cases "0 \<le> sid") simp_all
  with d r l show ?thesis by blast
qed

lemma store_extras_id_only: "id_only tag \<Longrightarrow> store_extras st s_i tag = (None, st)"
proof (induction tag)
  case Nil
  show ?case by simp
next
  case (Cons kv tag)
  obtain key v where kv: "kv = (key, v)" by (cases kv)
  from Cons.prems kv have "key = ''scenario_id''" "id_only tag"
    by (simp_all add: id_only_def dict_keys_def)
  with kv Cons.IH show ?case by simp
qed

lemma store_loop_append:
  "store_loop st dl tags (xs @ ys) =
     (case store_loop st dl tags xs of
        (Some e, st') \<Rightarrow> (Some e, st')
      | (None, st') \<Rightarrow> store_loop st' dl tags ys)"
proof (induction xs arbitrary: st)
  case Nil
  show ?case by simp
next
  case (Cons x xs)
  show ?case by (simp add: Cons.IH split: prod.splits option.splits)
qed

lemma tagged_Suc:
  "tagged n tags (Suc k) f s =
     tagged n tags k f s @ (if bucket_of n (tags ! k) = s then [seq_items f ! k] else [])"
  by (simp add: tagged_def)

lemma length_demux: "length (demux n tags k f buf) = length buf"
  by (simp add: demux_def)

lemma demux_0: "demux n tags 0 f buf = buf"
  by (simp add: demux_def tagged_def map_nth)

lemma demux_Suc:
  assumes "bucket_of n (tags ! k) < length buf"
  shows "(demux n tags k f buf)[bucket_of n (tags ! k) :=
            demux n tags k f buf ! bucket_of n (tags ! k) @ [seq_items f ! k]]
         = demux n tags (Suc k) f buf"
  using assms
  by (intro nth_equalityI) (auto simp: demux_def tagged_Suc nth_list_update)

lemma shaped_stored: "shaped st \<Longrightarrow> shaped (stored st data_list tags k)"
  by (simp add: shaped_def stored_def length_demux)

lemma store_step_stored:
  assumes "shaped st" and "k < length tags"
    and "sid_ok (num_scenario st) (tags ! k)" and "id_only (tags ! k)"
    and "all_items (fields_of data_list) k"
  shows "store_step (stored st data_list tags k) (fields_of data_list) tags k =
           (None, stored st data_list tags (Suc k))"
proof -
  let ?st = "stored st data_list tags k" and ?n = "num_scenario st"
  let ?j = "bucket_of ?n (tags ! k)"
  from assms(2) have t: "getitem tags (int k) = Inr (tags ! k)" by (simp add: getitem_nat)
  from sid_ok_lookup[OF assms(3)] obtain sid where
    sid: "dict_get (tags ! k) ''scenario_id'' = Inr (PyInt sid)"
    and j: "list_index (nat ?n) sid = Inr ?j" and jn: "?j < nat ?n" by blast
  have sh: "shaped ?st" using assms(1) by (rule shaped_stored)
  have n: "num_scenario ?st = ?n" by (simp add: stored_def)
  from jn assms(1) have jl: "?j < length (buffer_ego_actions st)"
    "?j < length (buffer_scenario_actions st)" "?j < length (buffer_obs st)"
    "?j < length (buffer_next_obs st)" "?j < length (buffer_rewards st)"
    "?j < length (buffer_dones st)"
    by (simp_all add: shaped_def)
  have f: "store_fields ?st (fields_of data_list) sid k = (None, stored st data_list tags (Suc k))"
    using store_fields_ok[OF sh j[folded n] assms(5)]
    by (simp add: stored_def fields_of_def demux_Suc[OF jl(1)] demux_Suc[OF jl(2)]
        demux_Suc[OF jl(3)] demux_Suc[OF jl(4)] demux_Suc[OF jl(5)] demux_Suc[OF jl(6)])
  show ?thesis
    by (simp add: store_step_def t sid f store_extras_id_only[OF assms(4)])
qed

lemma store_loop_stored:
  assumes "shaped st" and "k \<le> length tags"
    and "\<forall>i < k. sid_ok (num_scenario st) (tags ! i) \<and> id_only (tags ! i)
           \<and> all_items (fields_of data_list) i"
  shows "store_loop (stored st data_list tags 0) (fields_of data_list) tags [0..<k] =
           (None, stored st data_list tags k)"
  using assms(2,3)
proof (induction k)
  case 0
  show ?case by simp
next
  case (Suc k)
  from Suc.prems have pre: "store_loop (stored st data_list tags 0) (fields_of data_list) tags [0..<k] =
           (None, stored st data_list tags k)"
    by (intro Suc.IH) simp_all
  from Suc.prems have "k < length tags" "sid_ok (num_scenario st) (tags ! k)"
    "id_only (tags ! k)" "all_items (fields_of data_list) k"
    by simp_all
  from store_step_stored[OF assms(1) this]
  show ?case by (simp add: store_loop_append pre)
qed

lemma long_enough_item: "long_enough n f \<Longrightarrow> i < n \<Longrightarrow> has_item f i"
  by (auto simp: long_enough_def has_item_def split: field.splits)

lemma store_input_ok_items:
  assumes "store_input_ok st data_list tags" and "i < length tags"
  shows "all_items (fields_of data_list) i"
proof -
  from assms(1) have "\<forall>k < 6. long_enough (length tags) (data_list ! k)"
    by (auto simp: store_input_ok_def list_all_length)
  then have "\<forall>k < 6. has_item (data_list ! k) i"
    using long_enough_item[OF _ assms(2)] by blast
  then show ?thesis by (simp add: all_items_def fields_of_def)
qed

lemma store_ok:
  assumes "shaped st" and "store_input_ok st data_list tags"
  shows "store st data_list tags = (None, stored st data_list tags (length tags))"
proof -
  from assms(2) have six: "6 \<le> length data_list" by (simp add: store_input_ok_def)
  from assms(2) have "long_enough (length tags) (data_list ! 4)"
    by (auto simp: store_input_ok_def list_all_length)
  then have len: "field_len (data_list ! 4) = Inr (length (seq_items (data_list ! 4)))"
    by (auto simp: long_enough_def field_len_def seq_items_def split: field.splits)
  have s0: "stored st data_list tags 0 =
              st\<lparr>buffer_len := buffer_len st + int (length (seq_items (data_list ! 4)))\<rparr>"
    by (simp add: stored_def demux_0)
  have "\<forall>i < length tags. sid_ok (num_scenario st) (tags ! i) \<and> id_only (tags ! i)
           \<and> all_items (fields_of data_list) i"
    using assms(2) store_input_ok_items[OF assms(2)]
    by (simp add: store_input_ok_def list_all_length)
  from store_loop_stored[OF assms(1) le_refl this]
  show ?thesis
    using six len by (simp add: store_def read_fields_eq fields_of_def s0 py_range_def)
qed

subsection \<open>The perception store\<close>

lemma p_store_step_ok:
  assumes "p_shaped st" and "p_position_ok ea sa ob infos s_i"
    and "sid_ok (p_num_scenario st) (infos ! s_i)"
  shows "\<exists>st'. p_store_step st (Seq ea) (Seq sa) (Seq ob) (Seq infos) s_i = (None, st')
      \<and> p_shaped st' \<and> p_num_scenario st' = p_num_scenario st"
proof -
  from assms(2) have p: "s_i < length ea" "has_key ''od_result'' (ea ! s_i)"
    "s_i < length sa" "has_key ''attack'' (sa ! s_i)"
    "s_i < length ob" "has_key ''img'' (ob ! s_i)"
    "s_i < length infos" "has_key ''bbox_label'' (infos ! s_i)"
    "has_key ''iou_loss'' (infos ! s_i)"
    by (simp_all add: p_position_ok_def)
  from p(7) have t: "field_item (Seq infos) (int s_i) = Inr (infos ! s_i)"
    by (simp add: field_item_def getitem_nat)
  from sid_ok_lookup[OF assms(3)] obtain sid where
    sid: "dict_get (infos ! s_i) ''scenario_id'' = Inr (PyInt sid)"
    and j: "list_index (nat (p_num_scenario st)) sid
              = Inr (bucket_of (p_num_scenario st) (infos ! s_i))" by blast
  from p_store_fields_ok[OF assms(1) j p] obtain a b c d e where
    f: "p_store_fields st (Seq ea) (Seq sa) (Seq ob) (Seq infos) sid s_i =
    (None, st\<lparr>
       buffer_predictions := (buffer_predictions st)[bucket_of (p_num_scenario st) (infos ! s_i) :=
          buffer_predictions st ! bucket_of (p_num_scenario st) (infos ! s_i) @ [a]],
       p_buffer_scenario_actions := (p_buffer_scenario_actions st)[bucket_of (p_num_scenario st) (infos ! s_i) :=
          p_buffer_scenario_actions st ! bucket_of (p_num_scenario st) (infos ! s_i) @ [b]],
       p_buffer_obs := (p_buffer_obs st)[bucket_of (p_num_scenario st) (infos ! s_i) :=
          p_buffer_obs st ! bucket_of (p_num_scenario st) (infos ! s_i) @ [c]],
       buffer_bbox_label := (buffer_bbox_label st)[bucket_of (p_num_scenario st) (infos ! s_i) :=
          buffer_bbox_label st ! bucket_of (p_num_scenario st) (infos ! s_i) @ [d]],
       buffer_loss := (buffer_loss st)[bucket_of (p_num_scenario st) (infos ! s_i) :=
          buffer_loss st ! bucket_of (p_num_scenario st) (infos ! s_i) @ [e]]\<rparr>)" by blast
  show ?thesis
    using assms(1) by (simp add: p_store_step_def t sid f p_shaped_def)
qed

lemma p_store_loop_ok:
  assumes "p_shaped st" and "p_num_scenario st = n"
    and "\<forall>s_i \<in> set ss. p_position_ok ea sa ob infos s_i \<and> sid_ok n (infos ! s_i)"
  shows "fst (p_store_loop st (Seq ea) (Seq sa) (Seq ob) (Seq infos) ss) = None"
  using assms
proof (induction ss arbitrary: st)
  case Nil
  show ?case by simp
next
  case (Cons x ss)
  from Cons.prems have "p_position_ok ea sa ob infos x" "sid_ok (p_num_scenario st) (infos ! x)"
    by simp_all
  from p_store_step_ok[OF Cons.prems(1) this] obtain st' where
    f: "p_store_step st (Seq ea) (Seq sa) (Seq ob) (Seq infos) x = (None, st')"
    and sh: "p_shaped st'"
    and n: "p_num_scenario st' = n" using Cons.prems(2) by auto
  from Cons.prems(3) have "\<forall>s_i \<in> set ss. p_position_ok ea sa ob infos s_i \<and> sid_ok n (infos ! s_i)"
    by simp
  from Cons.IH[OF sh n this] f show ?case by simp
qed

lemma p_store_ok:
  assumes "p_shaped st" and "p_store_input_ok st data_list"
  shows "fst (p_store st data_list) = None"
proof -
  from assms(2) have "length data_list = 4" and "list_all is_seq data_list"
    by (simp_all add: p_store_input_ok_def)
  then obtain ea sa ob infos where dl: "data_list = [Seq ea, Seq sa, Seq ob, Seq infos]"
    by (rule four_seqs)
  let ?st0 = "st\<lparr>p_buffer_len := p_buffer_len st + int (length infos)\<rparr>"
  have sh: "p_shaped ?st0" using assms(1) by (simp add: p_shaped_def)
  have n: "p_num_scenario ?st0 = p_num_scenario st" by simp
  from assms(2) have "\<forall>s_i \<in> set (py_range (int (length infos))).
      p_position_ok ea sa ob infos s_i \<and> sid_ok (p_num_scenario st) (infos ! s_i)"
    unfolding dl by (simp add: p_store_input_ok_def py_range_def seq_items_def Let_def)
  from p_store_loop_ok[OF sh n this] show ?thesis by (simp add: p_store_def dl field_len_def)
qed

subsection \<open>Lengths and arity\<close>

text \<open>
  Claim C7 does not hold of the code: the generic \<^verbatim>\<open>store\<close> has no check of the
  lengths. Given fields of two values and a single tag, it stores the first transition,
  adds 2 to \<open>buffer_len\<close> and returns normally.
\<close>

theorem store_accepts_unequal_lengths_counterexample:
  "field_len (long_batch ! 4) = Inr 2
   \<and> length [id_tag 0] = 1
   \<and> store (ReplayBuffer 1 ''train_agent'' 1000) long_batch [id_tag 0]
     = (None, (ReplayBuffer 1 ''train_agent'' 1000)
          \<lparr>buffer_len := 2, buffer_ego_actions := [[Vector [7]]],
           buffer_scenario_actions := [[Vector [1007]]],
           buffer_obs := [[Vector [2007]]], buffer_next_obs := [[Vector [3007]]],
           buffer_rewards := [[Scalar 1]], buffer_dones := [[Scalar 0]]\<rparr>)"
  by code_simp

text \<open>
  Claim C7 as amended. The generic \<^verbatim>\<open>store\<close> fails when one of its six fields is a
  sequence shorter than the list of tags (with IndexError, when all six fields are
  sequences and every tag carries an integer scenario id). Fields that are longer than
  the list of tags are no cause of failure: on a buffer with one bucket per scenario
  id, when the six fields are sequences no shorter than the list of tags and every tag
  carries an integer scenario id in range and no other key, \<^verbatim>\<open>store\<close> returns normally,
  has added \<^verbatim>\<open>len(rewards)\<close> to \<open>buffer_len\<close> and has appended to the bucket of each
  scenario id, in each of the six fields, the values at the positions tagged with that
  id, in the order of the batch; positions beyond the last tag are not stored, and
  nothing else changes. The perception \<^verbatim>\<open>store\<close> raises AssertionError (the
  ShapeMismatch of the specification) and changes nothing when it receives other than
  four fields, and returns normally when the four fields are sequences that hold, at
  every position of \<^verbatim>\<open>infos\<close>, the keys it reads and a scenario id in range.
\<close>

theorem store_fails_on_short_field:
  "(6 \<le> length data_list \<and> list_ex (too_short (length tags)) (take 6 data_list)
      \<longrightarrow> fst (store st data_list tags) \<noteq> None
        \<and> (list_all is_seq (take 6 data_list) \<and> int_ids tags
             \<longrightarrow> fst (store st data_list tags) = Some IndexError))
   \<and> (shaped st \<and> store_input_ok st data_list tags \<longrightarrow>
        store st data_list tags =
          (None,
           st\<lparr>buffer_len := buffer_len st + int (length (seq_items (data_list ! 4))),
              buffer_ego_actions :=
                demux (num_scenario st) tags (length tags) (data_list ! 0) (buffer_ego_actions st),
              buffer_scenario_actions :=
                demux (num_scenario st) tags (length tags) (data_list ! 1)
                  (buffer_scenario_actions st),
              buffer_obs :=
                demux (num_scenario st) tags (length tags) (data_list ! 2) (buffer_obs st),
              buffer_next_obs :=
                demux (num_scenario st) tags (length tags) (data_list ! 3) (buffer_next_obs st),
              buffer_rewards :=
                demux (num_scenario st) tags (length tags) (data_list ! 4) (buffer_rewards st),
              buffer_dones :=
                demux (num_scenario st) tags (length tags) (data_list ! 5) (buffer_dones st)\<rparr>))
   \<and> (length p_data_list \<noteq> 4 \<longrightarrow> p_store pst p_data_list = (Some AssertionError, pst))
   \<and> (p_shaped pst \<and> p_store_input_ok pst p_data_list \<longrightarrow> fst (p_store pst p_data_list) = None)"
proof (intro conjI impI)
  assume a: "6 \<le> length data_list \<and> list_ex (too_short (length tags)) (take 6 data_list)"
  then show f: "fst (store st data_list tags) \<noteq> None"
    by (intro store_short_field_fails) simp_all
  assume i: "list_all is_seq (take 6 data_list) \<and> int_ids tags"
  from f obtain e where e: "fst (store st data_list tags) = Some e" by auto
  from a i have "e = IndexError" by (intro store_Some[OF _ _ _ e]) simp_all
  with e show "fst (store st data_list tags) = Some IndexError" by simp
next
  assume "shaped st \<and> store_input_ok st data_list tags"
  then have "store st data_list tags = (None, stored st data_list tags (length tags))"
    by (intro store_ok) simp_all
  then show "store st data_list tags =
          (None,
           st\<lparr>buffer_len := buffer_len st + int (length (seq_items (data_list ! 4))),
              buffer_ego_actions :=
                demux (num_scenario st) tags (length tags) (data_list ! 0) (buffer_ego_actions st),
              buffer_scenario_actions :=
                demux (num_scenario st) tags (length tags) (data_list ! 1)
                  (buffer_scenario_actions st),
              buffer_obs :=
                demux (num_scenario st) tags (length tags) (data_list ! 2) (buffer_obs st),
              buffer_next_obs :=
                demux (num_scenario st) tags (length tags) (data_list ! 3) (buffer_next_obs st),
              buffer_rewards :=
                demux (num_scenario st) tags (length tags) (data_list ! 4) (buffer_rewards st),
              buffer_dones :=
                demux (num_scenario st) tags (length tags) (data_list ! 5) (buffer_dones st)\<rparr>)"
    by (simp add: stored_def)
next
  assume "length p_data_list \<noteq> 4"
  then show "p_store pst p_data_list = (Some AssertionError, pst)" by (rule p_store_arity)
next
  assume "p_shaped pst \<and> p_store_input_ok pst p_data_list"
  then show "fst (p_store pst p_data_list) = None" by (intro p_store_ok) simp_all
qed

theorem store_fails_on_short_field_witness:
  "6 \<le> length short_batch \<and> list_ex (too_short (length [id_tag 0])) (take 6 short_batch)
   \<and> list_all is_seq (take 6 short_batch) \<and> int_ids [id_tag 0]
   \<and> fst (store (ReplayBuffer 1 ''train_agent'' 1000) short_batch [id_tag 0]) = Some IndexError
   \<and> shaped (ReplayBuffer 2 ''train_agent'' 1000 :: ndarray replay_buffer)
   \<and> store_input_ok (ReplayBuffer 2 ''train_agent'' 1000) demux_batch demux_tags
   \<and> store (ReplayBuffer 2 ''train_agent'' 1000) demux_batch demux_tags =
       (None,
        (ReplayBuffer 2 ''train_agent'' 1000)
          \<lparr>buffer_len := 3,
           buffer_ego_actions := [[Vector [11]], [Vector [10], Vector [12]]],
           buffer_scenario_actions := [[Vector [21]], [Vector [20], Vector [22]]],
           buffer_obs := [[Vector [31]], [Vector [30], Vector [32]]],
           buffer_next_obs := [[Vector [41]], [Vector [40], Vector [42]]],
           buffer_rewards := [[Scalar 2], [Scalar 1, Scalar 3]],
           buffer_dones := [[Scalar 0], [Scalar 0, Scalar 1]]\<rparr>)
   \<and> store_input_ok (ReplayBuffer 1 ''train_agent'' 1000) long_batch [id_tag 0]
   \<and> fst (store (ReplayBuffer 1 ''train_agent'' 1000) long_batch [id_tag 0]) = None
   \<and> length [Seq [], Seq [], Seq [] :: (string, ndarray pyval) pydict field] \<noteq> 4
   \<and> p_store (ReplayBuffer_Perception 2 ''train_agent'' 1000) [Seq [], Seq [], Seq []]
       = (Some AssertionError,
          ReplayBuffer_Perception 2 ''train_agent'' 1000 :: ndarray perception_buffer)
   \<and> p_shaped (ReplayBuffer_Perception 2 ''train_agent'' 1000 :: ndarray perception_buffer)
   \<and> p_store_input_ok (ReplayBuffer_Perception 2 ''train_agent'' 1000) p_demux_data
   \<and> fst (p_store (ReplayBuffer_Perception 2 ''train_agent'' 1000) p_demux_data) = None"
proof -
  let ?t = "[id_tag 0]"
  let ?b1 = "ReplayBuffer 1 ''train_agent'' 1000 :: ndarray replay_buffer"
  let ?b2 = "ReplayBuffer 2 ''train_agent'' 1000 :: ndarray replay_buffer"
  let ?p2 = "ReplayBuffer_Perception 2 ''train_agent'' 1000 :: ndarray perception_buffer"
  let ?d3 = "[Seq [], Seq [], Seq [] :: (string, ndarray pyval) pydict field]"
  have l6: "6 \<le> length short_batch" by code_simp
  have ts: "list_ex (too_short (length ?t)) (take 6 short_batch)" by code_simp
  have sq: "list_all is_seq (take 6 short_batch)" by code_simp
  have i: "int_ids ?t" by code_simp
  have sh1: "shaped ?b1" by code_simp
  have sh: "shaped ?b2" by code_simp
  have ok: "store_input_ok ?b2 demux_batch demux_tags" by code_simp
  have ok1: "store_input_ok ?b1 long_batch ?t" by code_simp
  have v: "?b2\<lparr>buffer_len := buffer_len ?b2 + int (length (seq_items (demux_batch ! 4))),
              buffer_ego_actions :=
                demux (num_scenario ?b2) demux_tags (length demux_tags) (demux_batch ! 0)
                  (buffer_ego_actions ?b2),
              buffer_scenario_actions :=
                demux (num_scenario ?b2) demux_tags (length demux_tags) (demux_batch ! 1)
                  (buffer_scenario_actions ?b2),
              buffer_obs :=
                demux (num_scenario ?b2) demux_tags (length demux_tags) (demux_batch ! 2)
                  (buffer_obs ?b2),
              buffer_next_obs :=
                demux (num_scenario ?b2) demux_tags (length demux_tags) (demux_batch ! 3)
                  (buffer_next_obs ?b2),
              buffer_rewards :=
                demux (num_scenario ?b2) demux_tags (length demux_tags) (demux_batch ! 4)
                  (buffer_rewards ?b2),
              buffer_dones :=
                demux (num_scenario ?b2) demux_tags (length demux_tags) (demux_batch ! 5)
                  (buffer_dones ?b2)\<rparr>
        = ?b2\<lparr>buffer_len := 3,
           buffer_ego_actions := [[Vector [11]], [Vector [10], Vector [12]]],
           buffer_scenario_actions := [[Vector [21]], [Vector [20], Vector [22]]],
           buffer_obs := [[Vector [31]], [Vector [30], Vector [32]]],
           buffer_next_obs := [[Vector [41]], [Vector [40], Vector [42]]],
           buffer_rewards := [[Scalar 2], [Scalar 1, Scalar 3]],
           buffer_dones := [[Scalar 0], [Scalar 0, Scalar 1]]\<rparr>"
    by code_simp
  have l3: "length ?d3 \<noteq> 4" by simp
  have psh: "p_shaped ?p2" by code_simp
  have pok: "p_store_input_ok ?p2 p_demux_data" by code_simp
  note T1 = store_fails_on_short_field[where st = ?b1 and data_list = short_batch and tags = ?t]
  note T2 = store_fails_on_short_field[where st = ?b2 and data_list = demux_batch
      and tags = demux_tags and pst = ?p2 and p_data_list = ?d3]
  note T3 = store_fails_on_short_field[where pst = ?p2 and p_data_list = p_demux_data]
  note T4 = store_fails_on_short_field[where st = ?b1 and data_list = long_batch and tags = ?t]
  have f1: "fst (store ?b1 short_batch ?t) = Some IndexError"
    by (rule T1[THEN conjunct1, THEN mp, OF conjI[OF l6 ts], THEN conjunct2, THEN mp,
          OF conjI[OF sq i]])
  have f2: "store ?b2 demux_batch demux_tags =
       (None,
        ?b2\<lparr>buffer_len := 3,
           buffer_ego_actions := [[Vector [11]], [Vector [10], Vector [12]]],
           buffer_scenario_actions := [[Vector [21]], [Vector [20], Vector [22]]],
           buffer_obs := [[Vector [31]], [Vector [30], Vector [32]]],
           buffer_next_obs := [[Vector [41]], [Vector [40], Vector [42]]],
           buffer_rewards := [[Scalar 2], [Scalar 1, Scalar 3]],
           buffer_dones := [[Scalar 0], [Scalar 0, Scalar 1]]\<rparr>)"
    using T2[THEN conjunct2, THEN conjunct1, THEN mp, OF conjI[OF sh ok]]
    by (simp only: v)
  have "store ?b1 long_batch ?t = (None, stored ?b1 long_batch ?t (length ?t))"
    using T4[THEN conjunct2, THEN conjunct1, THEN mp, OF conjI[OF sh1 ok1]]
    by (simp only: stored_def)
  then have f5: "fst (store ?b1 long_batch ?t) = None" by simp
  have f3: "p_store ?p2 ?d3 = (Some AssertionError, ?p2)"
    by (rule T2[THEN conjunct2, THEN conjunct2, THEN conjunct1, THEN mp, OF l3])
  have f4: "fst (p_store ?p2 p_demux_data) = None"
    by (rule T3[THEN conjunct2, THEN conjunct2, THEN conjunct2, THEN mp, OF conjI[OF psh pok]])
  show ?thesis by (intro conjI l6 ts sq i f1 sh ok f2 ok1 f5 l3 f3 psh pok f4)
qed


end
